theory Spec2Isabelle
  imports Main "HOL-Library.Word" "HOL-Library.Multiset"
begin

section \<open>Data model\<close>

text \<open>
  The loader (\<^verbatim>\<open>ssm-loader.go\<close>) keeps its namespace in a Go
  \<^verbatim>\<open>map[string]string\<close> (\<^verbatim>\<open>paramMap\<close>) and reads
  \<^verbatim>\<open>ssm.Parameter\<close> values, of which it uses the fields \<^verbatim>\<open>Name\<close> and
  \<^verbatim>\<open>Value\<close>. Both are string pointers that the store always sets; they are
  strings here. Go strings are byte sequences, as \<^typ>\<open>string\<close> is.

  The sources hold three texts of the program, which share every function but
  \<^verbatim>\<open>main\<close>: two in \<^verbatim>\<open>ssm-loader.go\<close> and the earliest in \<^verbatim>\<open>part_000\<close>.
\<close>

record Parameter =
  Name :: string
  Value :: string

type_synonym paramMap = "string \<rightharpoonup> string"

section \<open>The pattern \<^verbatim>\<open>%%(.*)%%\<close>\<close>

text \<open>
  \<^verbatim>\<open>var paramInterpolation = regexp.MustCompile("%%(.*)%%")\<close>.
  Go's \<^verbatim>\<open>regexp\<close> is leftmost-first: a match starts at the first position where the
  pattern matches at all, and there the greedy star takes as many characters as it can
  and still lets the closing \<^verbatim>\<open>%%\<close> match. The dot does not match a newline.
\<close>

fun hasPercents :: "string \<Rightarrow> bool" where
  "hasPercents (a # b # _) = (a = CHR ''%'' \<and> b = CHR ''%'')"
| "hasPercents _ = False"

text \<open>
  \<open>captureLen s\<close> runs the rest of the pattern, \<^verbatim>\<open>(.*)%%\<close>, on the text \<open>s\<close> after the
  opening delimiter, and returns the length of the capture. The star first tries to
  take one more character (anything but a newline); only where that fails does the
  closing delimiter get its turn.
\<close>

fun captureLen :: "string \<Rightarrow> nat option" where
  "captureLen [] = None"
| "captureLen (c # cs) =
     (case (if c = CHR 0x0A then None else captureLen cs) of
        Some n \<Rightarrow> Some (Suc n)
      | None \<Rightarrow> if hasPercents (c # cs) then Some 0 else None)"

text \<open>The length of the match that starts at the head of the string, if there is one.\<close>

definition matchAt :: "string \<Rightarrow> nat option" where
  "matchAt s =
     (if hasPercents s then map_option (\<lambda>n. n + 4) (captureLen (drop 2 s)) else None)"

text \<open>
  \<^verbatim>\<open>ReplaceAllStringFunc(src, repl)\<close>: the text between matches is copied, every match
  is replaced by \<open>repl\<close> of the matched text, and the search goes on after the match.
  The replacement is not scanned again.
\<close>

function ReplaceAllStringFunc :: "string \<Rightarrow> (string \<Rightarrow> string) \<Rightarrow> string" where
  "ReplaceAllStringFunc [] repl = []"
| "ReplaceAllStringFunc (c # cs) repl =
     (case matchAt (c # cs) of
        Some n \<Rightarrow> repl (take n (c # cs)) @ ReplaceAllStringFunc (drop n (c # cs)) repl
      | None \<Rightarrow> c # ReplaceAllStringFunc cs repl)"
  by pat_completeness auto
termination
proof (relation "measure (\<lambda>(s, repl). length s)")
  show "wf (measure (\<lambda>(s, repl). length s))" by simp
next
  fix c :: char and cs :: string and repl :: "string \<Rightarrow> string" and n :: nat
  assume "matchAt (c # cs) = Some n"
  then have "0 < n" by (auto simp: matchAt_def split: if_splits)
  then show "((drop n (c # cs), repl), (c # cs, repl)) \<in> measure (\<lambda>(s, repl). length s)"
    by (cases n) auto
next
  fix c :: char and cs :: string and repl :: "string \<Rightarrow> string"
  show "((cs, repl), (c # cs, repl)) \<in> measure (\<lambda>(s, repl). length s)" by simp
qed

text \<open>\<^verbatim>\<open>strings.Trim(s, cutset)\<close>: all leading and trailing bytes of the cutset go.\<close>

definition Trim :: "string \<Rightarrow> string \<Rightarrow> string" where
  "Trim s cutset =
     rev (dropWhile (\<lambda>x. x \<in> set cutset) (rev (dropWhile (\<lambda>x. x \<in> set cutset) s)))"

section \<open>The interpolation resolver\<close>

text \<open>
  The closure handed to \<^verbatim>\<open>ReplaceAllStringFunc\<close> in \<^verbatim>\<open>ReplaceInterpolations\<close>: the
  matched text without its percent signs is looked up in the map as it stands.
\<close>

definition lookupVar :: "paramMap \<Rightarrow> string \<Rightarrow> string" where
  "lookupVar m s =
     (let varName = Trim s ''%'' in
      case m varName of Some replacement \<Rightarrow> replacement | None \<Rightarrow> [])"

definition replaced :: "paramMap \<Rightarrow> string \<Rightarrow> string" where
  "replaced m v = ReplaceAllStringFunc v (lookupVar m)"

text \<open>
  \<^verbatim>\<open>for key, value := range m { ...; m[key] = replaced }\<close>. Go leaves the order of a
  range over a map open, so the order is an argument: the list of keys as the loop
  meets them. The loop writes only keys that exist, so the key set never changes and
  every key is met once. Each value is rewritten against the map as it stands then,
  earlier rewrites included.
\<close>

fun ReplaceInterpolations :: "string list \<Rightarrow> paramMap \<Rightarrow> paramMap" where
  "ReplaceInterpolations [] m = m"
| "ReplaceInterpolations (key # keys) m =
     (case m key of
        None \<Rightarrow> ReplaceInterpolations keys m
      | Some v \<Rightarrow> ReplaceInterpolations keys (m(key \<mapsto> replaced m v)))"

section \<open>Seeding, merging and flattening the namespace\<close>

text \<open>
  \<^verbatim>\<open>strings.SplitN(e, "=", 2)\<close> cuts at the first separator only and returns one or
  two pieces; \<^verbatim>\<open>strings.Split(name, "/")\<close> cuts at every separator and returns at
  least one piece. Both are called with a one-byte separator.
\<close>

definition SplitN2 :: "string \<Rightarrow> char \<Rightarrow> string list" where
  "SplitN2 s sep =
     (if sep \<in> set s
      then [takeWhile (\<lambda>x. x \<noteq> sep) s, tl (dropWhile (\<lambda>x. x \<noteq> sep) s)]
      else [s])"

fun Split :: "string \<Rightarrow> char \<Rightarrow> string list" where
  "Split [] sep = [[]]"
| "Split (c # cs) sep =
     (if c = sep then [] # Split cs sep
      else (case Split cs sep of [] \<Rightarrow> [[c]] | x # xs \<Rightarrow> (c # x) # xs))"

text \<open>
  \<^verbatim>\<open>getOSEnv\<close>, over the list that \<^verbatim>\<open>os.Environ()\<close> returns. An entry without
  \<^verbatim>\<open>=\<close> makes \<^verbatim>\<open>pair[1]\<close> an index out of range: the program panics, which is
  \<open>None\<close> here.
\<close>

fun seedEnv :: "string list \<Rightarrow> paramMap \<Rightarrow> paramMap option" where
  "seedEnv [] m = Some m"
| "seedEnv (e # es) m =
     (let pair = SplitN2 e (CHR ''='') in
      if 1 < length pair then seedEnv es (m(pair ! 0 \<mapsto> pair ! 1)) else None)"

definition getOSEnv :: "string list \<Rightarrow> paramMap option" where
  "getOSEnv environ = seedEnv environ Map.empty"

text \<open>The key under which \<^verbatim>\<open>AddParams\<close> files a parameter: \<^verbatim>\<open>ss[len(ss)-1]\<close>.\<close>

definition bareName :: "Parameter \<Rightarrow> string" where
  "bareName param = (let ss = Split (Name param) (CHR ''/'') in ss ! (length ss - 1))"

fun AddParams :: "Parameter list \<Rightarrow> paramMap \<Rightarrow> paramMap" where
  "AddParams [] m = m"
| "AddParams (param # params) m =
     (let name = bareName param in
      if m name = None then AddParams params (m(name \<mapsto> Value param))
      else AddParams params m)"

text \<open>
  \<^verbatim>\<open>StringArray\<close> ranges over the map too; as above, the order in which the keys are
  met is an argument.
\<close>

fun StringArray :: "string list \<Rightarrow> paramMap \<Rightarrow> string list" where
  "StringArray [] m = []"
| "StringArray (k # ks) m =
     (case m k of
        None \<Rightarrow> StringArray ks m
      | Some v \<Rightarrow> (k @ ''='' @ v) # StringArray ks m)"

fun contains :: "string list \<Rightarrow> string \<Rightarrow> bool" where
  "contains [] x = False"
| "contains (n # a) x = (if x = n then True else contains a x)"

section \<open>The paginated fetcher\<close>

text \<open>
  The remote store is reached through \<^verbatim>\<open>Client.GetParametersByPath\<close> only. A client
  is a function from the request to either an error or a page: the parameters and the
  continuation token (\<open>None\<close> for Go's \<^verbatim>\<open>nil\<close>).
\<close>

datatype error = Error string

record GetParametersByPathInput =
  ReqPath :: string
  ReqNextToken :: "string option"
  Recursive :: bool
  MaxResults :: int
  WithDecryption :: bool

type_synonym client = "GetParametersByPathInput \<Rightarrow> error + (Parameter list \<times> string option)"

text \<open>
  What the process does to the outside, in the order it does it: sleeping
  (milliseconds), calling the store, printing a line to standard output, logging a
  line through the standard logger (standard error), starting the child process with
  its name, arguments and environment, and waiting for it.
\<close>

datatype event =
    Sleep nat
  | Request GetParametersByPathInput
  | Println string
  | Logln string
  | Start string "string list" "string list"
  | Wait

record getParametersInput =
  Client :: client
  Path :: string
  NextToken :: "string option"
  FetchedParams :: "Parameter list"

text \<open>
  The request that \<^verbatim>\<open>getParameters\<close> builds: the path and the cursor vary, the
  rest is fixed (\<^verbatim>\<open>Recursive: false, MaxResults: 10, WithDecryption: true\<close>).
\<close>

definition byPath :: "string \<Rightarrow> string option \<Rightarrow> GetParametersByPathInput" where
  "byPath p tok =
     \<lparr>ReqPath = p, ReqNextToken = tok, Recursive = False, MaxResults = 10,
      WithDecryption = True\<rparr>"

text \<open>
  \<^verbatim>\<open>getParameters\<close> calls itself once per page and nothing bounds the number of
  pages, so the function is partial: \<open>None\<close> is a run that never returns. The result
  is Go's pair of the slice (\<^verbatim>\<open>nil\<close> is the empty list) and the error, together
  with the events so far. \<^verbatim>\<open>itr\<close> is a Go \<^verbatim>\<open>int\<close>, 64 bits on the released
  platforms, and \<^verbatim>\<open>itr+1\<close> wraps.
\<close>

partial_function (option) getParameters ::
  "getParametersInput \<Rightarrow> 64 word \<Rightarrow> event list
     \<Rightarrow> ((Parameter list \<times> error option) \<times> event list) option" where
  "getParameters params itr tr =
     (if itr \<noteq> 0 \<and> NextToken params = None then Some ((FetchedParams params, None), tr)
      else
        (case Client params (byPath (Path params) (NextToken params)) of
           Inl err \<Rightarrow>
             Some (([], Some err),
                   tr @ [Sleep 100, Request (byPath (Path params) (NextToken params))])
         | Inr result \<Rightarrow>
             getParameters
               \<lparr>Client = Client params, Path = Path params, NextToken = snd result,
                FetchedParams = FetchedParams params @ fst result\<rparr>
               (itr + 1)
               (tr @ [Sleep 100, Request (byPath (Path params) (NextToken params))])))"

section \<open>The invocation driver\<close>

text \<open>
  \<^verbatim>\<open>os.Getenv\<close> over the same list: the value of the first entry with that name,
  the empty string when there is none.
\<close>

fun Getenv :: "string list \<Rightarrow> string \<Rightarrow> string" where
  "Getenv [] key = []"
| "Getenv (e # es) key =
     (let pair = SplitN2 e (CHR ''='') in
      if 1 < length pair \<and> pair ! 0 = key then pair ! 1 else Getenv es key)"

text \<open>\<^verbatim>\<open>appEnv\<close> after the fallback to \<^verbatim>\<open>WORKPATH_ENV\<close>.\<close>

definition appEnvOf :: "string list \<Rightarrow> string" where
  "appEnvOf environ =
     (let appEnv = Getenv environ ''APP_ENV'' in
      if appEnv = [] then Getenv environ ''WORKPATH_ENV'' else appEnv)"

text \<open>
  \<^verbatim>\<open>fmt.Println\<close> and \<^verbatim>\<open>log.Fatalln\<close> put a space between any two operands; the
  line is kept without its newline, and without the logger's time stamp.
\<close>

fun Sprintln :: "string list \<Rightarrow> string" where
  "Sprintln [] = []"
| "Sprintln [x] = x"
| "Sprintln (x # y # ys) = x @ '' '' @ Sprintln (y # ys)"

fun message :: "error \<Rightarrow> string" where
  "message (Error s) = s"

text \<open>
  How a run ends: \<^verbatim>\<open>os.Exit\<close> with a status (\<^verbatim>\<open>log.Fatalln\<close> exits with 1,
  returning from \<^verbatim>\<open>main\<close> is status 0), or a run-time panic.
\<close>

datatype outcome = Exit nat | Panic

text \<open>
  The child process is the collaborator behind \<^verbatim>\<open>os/exec\<close>: given the name, the
  arguments and the environment, it says whether \<^verbatim>\<open>cmd.Start()\<close> and
  \<^verbatim>\<open>cmd.Wait()\<close> return an error.
\<close>

type_synonym launcher = "string \<Rightarrow> string list \<Rightarrow> string list \<Rightarrow> error option \<times> error option"

text \<open>
  The two fetches of \<^verbatim>\<open>main\<close>, the app scope second. The three texts of
  \<^verbatim>\<open>main\<close> differ here only in how the error is reported before the exit with
  status 1: \<^verbatim>\<open>log.Fatalln\<close> (\<^const>\<open>Logln\<close>) or \<^verbatim>\<open>fmt.Println\<close> with
  \<^verbatim>\<open>os.Exit(1)\<close> (\<^const>\<open>Println\<close>). The result is either the end of the run or
  \<^verbatim>\<open>allParams\<close>.
\<close>

definition fetchApp ::
  "(string \<Rightarrow> event) \<Rightarrow> client \<Rightarrow> string \<Rightarrow> string \<Rightarrow> Parameter list \<Rightarrow> event list
     \<Rightarrow> ((event list \<times> outcome) + (Parameter list \<times> event list)) option" where
  "fetchApp report svc appEnv appName allParams tr =
     (if appName \<noteq> [] then
        (case getParameters
                \<lparr>Client = svc, Path = ''/'' @ appEnv @ ''/'' @ appName @ ''/'',
                 NextToken = None, FetchedParams = []\<rparr> 0 tr of
           None \<Rightarrow> None
         | Some ((appParams, appErr), tr') \<Rightarrow>
             (case appErr of
                Some err \<Rightarrow>
                  Some (Inl (tr' @ [report (Sprintln [''Error fetching app params: '',
                                                      message err])], Exit 1))
              | None \<Rightarrow> Some (Inr (allParams @ appParams, tr'))))
      else Some (Inr (allParams, tr)))"

definition fetchShared ::
  "(string \<Rightarrow> event) \<Rightarrow> client \<Rightarrow> string \<Rightarrow> string
     \<Rightarrow> ((event list \<times> outcome) + (Parameter list \<times> event list)) option" where
  "fetchShared report svc appEnv appName =
     (if appEnv \<noteq> [] then
        (case getParameters
                \<lparr>Client = svc, Path = ''/'' @ appEnv @ ''/'',
                 NextToken = None, FetchedParams = []\<rparr> 0 [] of
           None \<Rightarrow> None
         | Some ((sharedParams, sharedErr), tr) \<Rightarrow>
             (case sharedErr of
                Some err \<Rightarrow>
                  Some (Inl (tr @ [report (Sprintln [''Error fetching shared params: '',
                                                     message err])], Exit 1))
              | None \<Rightarrow> fetchApp report svc appEnv appName sharedParams tr))
      else fetchApp report svc appEnv appName [] [])"

text \<open>The lines that the fuller \<^verbatim>\<open>main\<close> prints for \<^verbatim>\<open>-h\<close>, \<^verbatim>\<open>--help\<close> or no argument.\<close>

definition usage :: "string list" where
  "usage =
     [''Loads parameters from the SSM Parameter Store'',
      [],
      ''Usage:'',
      ''  ssm-loader [options] [command]'',
      [],
      ''Environment variables:'',
      ''  APP_ENV (WORKPATH_ENV): The application's environment'',
      ''  APP_NAME (optional): The name of the application'',
      [],
      ''Options:'',
      ''  --help (-h): Shows this output'',
      ''  -O: Prints the env to stdout (i.e. can combine with other commands [i.e. `export $(ssm-loader -O)`])'']"

text \<open>
  \<^verbatim>\<open>exec.Command(args[0], args[1:]...)\<close>, \<^verbatim>\<open>cmd.Start()\<close>, \<^verbatim>\<open>cmd.Wait()\<close>, each
  error fatal. \<^verbatim>\<open>args[0]\<close> on no arguments is an index out of range.
\<close>

definition runCommand ::
  "launcher \<Rightarrow> string list \<Rightarrow> string list \<Rightarrow> event list \<Rightarrow> event list \<times> outcome" where
  "runCommand child args env tr =
     (case args of
        [] \<Rightarrow> (tr, Panic)
      | name # rest \<Rightarrow>
          (case fst (child name rest env) of
             Some err \<Rightarrow>
               (tr @ [Start name rest env,
                      Logln (Sprintln [''Error while starting command: '', message err])],
                Exit 1)
           | None \<Rightarrow>
               (case snd (child name rest env) of
                  Some err \<Rightarrow>
                    (tr @ [Start name rest env, Wait,
                           Logln (Sprintln [''Command finished with err: '', message err])],
                     Exit 1)
                | None \<Rightarrow> (tr @ [Start name rest env, Wait], Exit 0))))"

text \<open>
  Every text of \<^verbatim>\<open>main\<close> begins with
  \<^verbatim>\<open>session.Must(session.NewSessionWithOptions(...))\<close> and \<^verbatim>\<open>ssm.New(sess)\<close>.
  \<^verbatim>\<open>Must\<close> panics when the session cannot be made, before the environment or the
  arguments are looked at. The argument \<open>sess\<close> is how that went: the error, or the
  client built on the session.

  \<^verbatim>\<open>main\<close> of the fuller text (the first in \<^verbatim>\<open>ssm-loader.go\<close>). Its inputs are
  the environment list, the arguments after the program name (\<^verbatim>\<open>os.Args[1:]\<close>),
  the session, the child process, and the two orders in which the two ranges over
  the map meet the keys (\<open>ro\<close> for \<^verbatim>\<open>ReplaceInterpolations\<close>, \<open>so\<close> for
  \<^verbatim>\<open>StringArray\<close>).
\<close>

definition main ::
  "string list \<Rightarrow> string list \<Rightarrow> error + client \<Rightarrow> launcher \<Rightarrow> string list \<Rightarrow> string list
     \<Rightarrow> (event list \<times> outcome) option" where
  "main environ args sess child ro so =
     (case sess of
        Inl err \<Rightarrow> Some ([], Panic)
      | Inr svc \<Rightarrow>
         (let appName = Getenv environ ''APP_NAME'' in
          case getOSEnv environ of
            None \<Rightarrow> Some ([], Panic)
          | Some paramMap \<Rightarrow>
              (case fetchShared Logln svc (appEnvOf environ) appName of
                 None \<Rightarrow> None
               | Some (Inl stop) \<Rightarrow> Some stop
               | Some (Inr (allParams, tr)) \<Rightarrow>
                   (let final = ReplaceInterpolations ro (AddParams allParams paramMap) in
                    if args = [] \<or> contains args ''-h'' \<or> contains args ''--help''
                    then Some (tr @ map Println usage, Exit 0)
                    else if contains args ''-O''
                    then Some (tr @ map Println (StringArray so final), Exit 0)
                    else Some (runCommand child args (StringArray so final) tr)))))"

text \<open>
  \<^verbatim>\<open>main\<close> of the second text in \<^verbatim>\<open>ssm-loader.go\<close>: no options, and a missing
  command is fatal.
\<close>

definition main_required ::
  "string list \<Rightarrow> string list \<Rightarrow> error + client \<Rightarrow> launcher \<Rightarrow> string list \<Rightarrow> string list
     \<Rightarrow> (event list \<times> outcome) option" where
  "main_required environ args sess child ro so =
     (case sess of
        Inl err \<Rightarrow> Some ([], Panic)
      | Inr svc \<Rightarrow>
         (let appName = Getenv environ ''APP_NAME'' in
          case getOSEnv environ of
            None \<Rightarrow> Some ([], Panic)
          | Some paramMap \<Rightarrow>
              (case fetchShared Logln svc (appEnvOf environ) appName of
                 None \<Rightarrow> None
               | Some (Inl stop) \<Rightarrow> Some stop
               | Some (Inr (allParams, tr)) \<Rightarrow>
                   (let final = ReplaceInterpolations ro (AddParams allParams paramMap) in
                    if args = []
                    then Some (tr @ [Logln ''ssm-loader requires a command to run''], Exit 1)
                    else Some (runCommand child args (StringArray so final) tr)))))"

text \<open>
  \<^verbatim>\<open>main\<close> of the earliest text (\<^verbatim>\<open>part_000\<close>): fetch errors are printed and the
  exit is \<^verbatim>\<open>os.Exit(1)\<close>; the arguments are not checked, and the errors of
  \<^verbatim>\<open>cmd.Start()\<close> and \<^verbatim>\<open>cmd.Wait()\<close> are dropped.
\<close>

definition main_unchecked ::
  "string list \<Rightarrow> string list \<Rightarrow> error + client \<Rightarrow> launcher \<Rightarrow> string list \<Rightarrow> string list
     \<Rightarrow> (event list \<times> outcome) option" where
  "main_unchecked environ args sess child ro so =
     (case sess of
        Inl err \<Rightarrow> Some ([], Panic)
      | Inr svc \<Rightarrow>
         (let appName = Getenv environ ''APP_NAME'' in
          case getOSEnv environ of
            None \<Rightarrow> Some ([], Panic)
          | Some paramMap \<Rightarrow>
              (case fetchShared Println svc (appEnvOf environ) appName of
                 None \<Rightarrow> None
               | Some (Inl stop) \<Rightarrow> Some stop
               | Some (Inr (allParams, tr)) \<Rightarrow>
                   (let final = ReplaceInterpolations ro (AddParams allParams paramMap) in
                    case args of
                      [] \<Rightarrow> Some (tr, Panic)
                    | name # rest \<Rightarrow>
                        Some (tr @ [Start name rest (StringArray so final), Wait], Exit 0)))))"

section \<open>Vocabulary of the properties\<close>

text \<open>An order in which a range over the map can meet its keys.\<close>

definition rangeOrder :: "paramMap \<Rightarrow> string list \<Rightarrow> bool" where
  "rangeOrder m keys = (distinct keys \<and> set keys = dom m)"

text \<open>Whether the pattern matches anywhere in a value.\<close>

fun hasMatch :: "string \<Rightarrow> bool" where
  "hasMatch [] = False"
| "hasMatch (c # cs) = (matchAt (c # cs) \<noteq> None \<or> hasMatch cs)"

text \<open>An entry of the environment list, \<^verbatim>\<open>NAME=VALUE\<close>, from its name and value.\<close>

definition entry :: "string \<times> string \<Rightarrow> string" where
  "entry nv = fst nv @ ''='' @ snd nv"

text \<open>
  A finite exchange with the store. \<open>answers c p tok rs\<close> says that \<open>rs\<close> are the
  answers of the client \<open>c\<close> to the requests for the path \<open>p\<close> that start at the
  cursor \<open>tok\<close> and follow the cursors returned: every answer but the last is a page
  with a cursor, and the last is an error or a page without one.
\<close>

type_synonym response = "error + (Parameter list \<times> string option)"

fun answers :: "client \<Rightarrow> string \<Rightarrow> string option \<Rightarrow> response list \<Rightarrow> bool" where
  "answers c p tok [] = False"
| "answers c p tok (r # rs) =
     (c (byPath p tok) = r \<and>
      (case r of
         Inl err \<Rightarrow> rs = []
       | Inr page \<Rightarrow> if snd page = None then rs = [] else answers c p (snd page) rs))"

text \<open>The events of such an exchange, the parameters of its pages, and its error.\<close>

fun requestsOf :: "string \<Rightarrow> string option \<Rightarrow> response list \<Rightarrow> event list" where
  "requestsOf p tok [] = []"
| "requestsOf p tok (r # rs) =
     [Sleep 100, Request (byPath p tok)] @
     (case r of Inl err \<Rightarrow> [] | Inr page \<Rightarrow> requestsOf p (snd page) rs)"

fun fetched :: "response list \<Rightarrow> Parameter list" where
  "fetched [] = []"
| "fetched (r # rs) = (case r of Inl err \<Rightarrow> [] | Inr page \<Rightarrow> fst page) @ fetched rs"

fun failure :: "response list \<Rightarrow> error option" where
  "failure [] = None"
| "failure (r # rs) = (case r of Inl err \<Rightarrow> Some err | Inr page \<Rightarrow> failure rs)"

text \<open>The events of the fetch stage, and the requests among the events of a run.\<close>

fun isFetch :: "event \<Rightarrow> bool" where
  "isFetch (Sleep n) = True"
| "isFetch (Request r) = True"
| "isFetch e = False"

fun requests :: "event list \<Rightarrow> GetParametersByPathInput list" where
  "requests [] = []"
| "requests (Request r # es) = r # requests es"
| "requests (e # es) = requests es"

text \<open>
  The two paths that \<^verbatim>\<open>main\<close> asks for, and what a scope can come to. A scope
  is fetched when it is not configured and nothing is asked, or when it is configured
  and the exchange for its path is finite (fewer than \<open>2^64\<close> answers, the range of
  \<^verbatim>\<open>itr\<close>) and all pages. It has failed when the exchange for its path ends in an
  error.
\<close>

definition sharedPath :: "string list \<Rightarrow> string" where
  "sharedPath environ = ''/'' @ appEnvOf environ @ ''/''"

definition appPath :: "string list \<Rightarrow> string" where
  "appPath environ = ''/'' @ appEnvOf environ @ ''/'' @ Getenv environ ''APP_NAME'' @ ''/''"

definition fetchedScope :: "client \<Rightarrow> bool \<Rightarrow> string \<Rightarrow> response list \<Rightarrow> bool" where
  "fetchedScope svc configured path rs =
     (if configured
      then answers svc path None rs \<and> failure rs = None \<and> length rs < 2 ^ 64
      else rs = [])"

definition failedScope :: "client \<Rightarrow> string \<Rightarrow> response list \<Rightarrow> error \<Rightarrow> bool" where
  "failedScope svc path rs err = (answers svc path None rs \<and> failure rs = Some err)"

text \<open>
  What holds of every run of \<^const>\<open>getParameters\<close> that returns: the events so far
  are kept and only sleeps and requests are added, at least one request unless the
  call is a later one without a cursor, and an error comes with no parameters.
\<close>

definition fetchTrace ::
  "getParametersInput \<Rightarrow> 64 word \<Rightarrow> event list
     \<Rightarrow> ((Parameter list \<times> error option) \<times> event list) \<Rightarrow> bool" where
  "fetchTrace params itr tr y =
     (\<exists>rest. snd y = tr @ rest \<and> list_all isFetch rest \<and>
        ((itr = 0 \<or> NextToken params \<noteq> None) \<longrightarrow> (\<exists>r. Request r \<in> set rest)) \<and>
        (snd (fst y) \<noteq> None \<longrightarrow> fst (fst y) = []))"

text \<open>
  Stores and a child process to run the model on. \<open>emptyStore\<close> answers every
  request with an empty last page. \<open>pagedStore entries\<close> serves the entries in pages
  of the size asked for, the cursor being the offset written in dots.
  \<open>flakyStore\<close> serves one page with a cursor and fails on the next request;
  \<open>failingAt p\<close> fails for the path \<open>p\<close> and serves one last page for any other.
  \<open>quietChild\<close> starts and ends without an error.
\<close>

definition emptyStore :: client where
  "emptyStore req = Inr ([], None)"

definition pagedStore :: "Parameter list \<Rightarrow> client" where
  "pagedStore entries req =
     (let off = (case ReqNextToken req of None \<Rightarrow> 0 | Some t \<Rightarrow> length t);
          n = nat (MaxResults req)
      in Inr (take n (drop off entries),
              if off + n < length entries then Some (replicate (off + n) (CHR ''.'')) else None))"

definition flakyStore :: client where
  "flakyStore req =
     (if ReqNextToken req = None
      then Inr ([\<lparr>Name = ReqPath req @ ''A'', Value = ''1''\<rparr>], Some ''next'')
      else Inl (Error ''throttled''))"

definition failingAt :: "string \<Rightarrow> client" where
  "failingAt p req =
     (if ReqPath req = p then Inl (Error ''denied'')
      else Inr ([\<lparr>Name = ReqPath req @ ''A'', Value = ''1''\<rparr>], None))"

definition quietChild :: launcher where
  "quietChild name args env = (None, None)"

definition sampleEntries :: "nat \<Rightarrow> Parameter list" where
  "sampleEntries n =
     map (\<lambda>i. \<lparr>Name = ''/prod/'' @ replicate (Suc i) (CHR ''K''),
               Value = replicate (Suc i) (CHR ''v'')\<rparr>) [0..<n]"

section \<open>Facts about the model\<close>

subsection \<open>Merging\<close>

text \<open>\<^verbatim>\<open>ss[len(ss)-1]\<close> is always in range.\<close>

lemma Split_nonempty: "Split s sep \<noteq> []"
  by (induction s) (auto split: list.splits)

lemma AddParams_keeps: "m k = Some v \<Longrightarrow> AddParams ps m k = Some v"
proof (induction ps arbitrary: m)
  case Nil
  then show ?case by simp
next
  case (Cons p ps)
  show ?case
  proof (cases "m (bareName p) = None")
    case True
    with Cons.prems have "(m(bareName p \<mapsto> Value p)) k = Some v" by auto
    then have "AddParams ps (m(bareName p \<mapsto> Value p)) k = Some v" by (rule Cons.IH)
    with True show ?thesis by (simp add: Let_def)
  next
    case False
    moreover from Cons.prems have "AddParams ps m k = Some v" by (rule Cons.IH)
    ultimately show ?thesis by (auto simp: Let_def)
  qed
qed

lemma AddParams_first:
  "m n = None \<Longrightarrow> find (\<lambda>q. bareName q = n) ps = Some p \<Longrightarrow> AddParams ps m n = Some (Value p)"
proof (induction ps arbitrary: m)
  case Nil
  then show ?case by simp
next
  case (Cons q ps)
  show ?case
  proof (cases "bareName q = n")
    case True
    with Cons.prems have "q = p" by simp
    with True Cons.prems show ?thesis by (simp add: AddParams_keeps)
  next
    case False
    with Cons.prems have f: "find (\<lambda>q. bareName q = n) ps = Some p" by simp
    show ?thesis
    proof (cases "m (bareName q) = None")
      case True
      from False Cons.prems have "(m(bareName q \<mapsto> Value q)) n = None" by simp
      then have "AddParams ps (m(bareName q \<mapsto> Value q)) n = Some (Value p)"
        using f by (rule Cons.IH)
      with True show ?thesis by (simp add: Let_def)
    next
      case False
      moreover from Cons.prems(1) f have "AddParams ps m n = Some (Value p)" by (rule Cons.IH)
      ultimately show ?thesis by (auto simp: Let_def)
    qed
  qed
qed

subsection \<open>The pattern and the pass\<close>

text \<open>A value without a match is left as it is.\<close>

lemma no_match_unchanged: "\<not> hasMatch v \<Longrightarrow> ReplaceAllStringFunc v f = v"
  by (induction v) auto

text \<open>A value that is one token, and a value with one token in text without percent signs.\<close>

lemma captureLen_token:
  "CHR 0x0A \<notin> set n \<Longrightarrow> captureLen (n @ ''%%'') = Some (length n)"
  by (induction n) auto

lemma matchAt_token:
  "CHR 0x0A \<notin> set n \<Longrightarrow> matchAt (''%%'' @ n @ ''%%'') = Some (length n + 4)"
  using captureLen_token [of n] by (simp add: matchAt_def)

lemma Trim_token:
  assumes "n = [] \<or> (hd n \<noteq> CHR ''%'' \<and> last n \<noteq> CHR ''%'')"
  shows "Trim (''%%'' @ n @ ''%%'') ''%'' = n"
proof (cases n)
  case Nil
  then show ?thesis by (simp add: Trim_def)
next
  case (Cons a as)
  then have ne: "n \<noteq> []" by simp
  with assms have l: "last n \<noteq> CHR ''%''" by simp
  from Cons assms have h: "a \<noteq> CHR ''%''" by auto
  have "dropWhile (\<lambda>x. x \<in> set ''%'') (''%%'' @ n @ ''%%'') = n @ ''%%''"
    using h Cons by simp
  moreover have "dropWhile (\<lambda>x. x \<in> set ''%'') (rev (n @ ''%%'')) = rev n"
  proof -
    have "rev n \<noteq> []" using ne by simp
    moreover have "hd (rev n) \<noteq> CHR ''%''" using l ne by (simp add: hd_rev)
    ultimately show ?thesis by (cases "rev n") auto
  qed
  ultimately show ?thesis by (simp add: Trim_def)
qed

lemma replaced_token:
  assumes "CHR 0x0A \<notin> set n" and "n = [] \<or> (hd n \<noteq> CHR ''%'' \<and> last n \<noteq> CHR ''%'')"
  shows "replaced m (''%%'' @ n @ ''%%'') = (case m n of Some r \<Rightarrow> r | None \<Rightarrow> [])"
proof -
  have "ReplaceAllStringFunc (''%%'' @ n @ ''%%'') (lookupVar m) = lookupVar m (''%%'' @ n @ ''%%'')"
    using matchAt_token [OF assms(1)] by simp
  then show ?thesis using Trim_token [OF assms(2)] by (simp add: replaced_def lookupVar_def)
qed

lemma hasPercents_head: "hasPercents (a # s) \<Longrightarrow> a = CHR ''%''"
  by (cases s) auto

lemma matchAt_head: "a \<noteq> CHR ''%'' \<Longrightarrow> matchAt (a # s) = None"
  using hasPercents_head [of a s] by (auto simp: matchAt_def)

lemma ReplaceAll_plain_prefix:
  "CHR ''%'' \<notin> set pre \<Longrightarrow>
     ReplaceAllStringFunc (pre @ s) f = pre @ ReplaceAllStringFunc s f"
  by (induction pre) (auto simp: matchAt_head)

lemma captureLen_plain: "CHR ''%'' \<notin> set s \<Longrightarrow> captureLen s = None"
  by (induction s) (auto split: option.splits dest: hasPercents_head)

lemma hasPercents_plain: "CHR ''%'' \<notin> set s \<Longrightarrow> \<not> hasPercents (c # s)"
  by (cases s) auto

lemma captureLen_token_in_text:
  assumes "CHR 0x0A \<notin> set n" and "CHR ''%'' \<notin> set post"
  shows "captureLen (n @ ''%%'' @ post) = Some (length n)"
  using assms(1)
proof (induction n)
  case Nil
  from assms(2) have "captureLen post = None" by (rule captureLen_plain)
  moreover from assms(2) have "\<not> hasPercents (CHR ''%'' # post)" by (rule hasPercents_plain)
  ultimately show ?case by simp
next
  case (Cons c n)
  then show ?case by auto
qed

lemma replaced_token_in_text:
  assumes "CHR 0x0A \<notin> set n" and "n = [] \<or> (hd n \<noteq> CHR ''%'' \<and> last n \<noteq> CHR ''%'')"
    and "CHR ''%'' \<notin> set pre" and "CHR ''%'' \<notin> set post"
  shows "replaced m (pre @ ''%%'' @ n @ ''%%'' @ post) =
           pre @ (case m n of Some r \<Rightarrow> r | None \<Rightarrow> []) @ post"
proof -
  let ?tok = "''%%'' @ n @ ''%%''"
  have len: "length ?tok = length n + 4" by simp
  have ma: "matchAt (?tok @ post) = Some (length n + 4)"
    using captureLen_token_in_text [OF assms(1,4)] by (simp add: matchAt_def)
  have tk: "take (length n + 4) (?tok @ post) = ?tok"
    by (metis len append_eq_conv_conj)
  have dr: "drop (length n + 4) (?tok @ post) = post"
    by (metis len append_eq_conv_conj)
  have "ReplaceAllStringFunc post (lookupVar m) = post"
    using ReplaceAll_plain_prefix [OF assms(4), of "[]" "lookupVar m"] by simp
  moreover have "ReplaceAllStringFunc (?tok @ post) (lookupVar m) =
      lookupVar m (take (length n + 4) (?tok @ post)) @
      ReplaceAllStringFunc (drop (length n + 4) (?tok @ post)) (lookupVar m)"
    using ma by simp
  ultimately have "ReplaceAllStringFunc (?tok @ post) (lookupVar m) = lookupVar m ?tok @ post"
    by (simp only: tk dr)
  moreover have "lookupVar m ?tok = (case m n of Some r \<Rightarrow> r | None \<Rightarrow> [])"
    using Trim_token [OF assms(2)] by (simp add: lookupVar_def)
  ultimately show ?thesis
    using ReplaceAll_plain_prefix [OF assms(3), of "?tok @ post" "lookupVar m"]
    by (simp add: replaced_def)
qed

text \<open>
  The pass changes the value of a key only when it meets the key, never the key set,
  and rewrites the value against the map that the keys before it have left.
\<close>

lemma RI_other: "k \<notin> set ks \<Longrightarrow> ReplaceInterpolations ks m k = m k"
proof (induction ks arbitrary: m)
  case Nil
  then show ?case by simp
next
  case (Cons a ks)
  then have "k \<noteq> a" and "k \<notin> set ks" by auto
  then show ?case using Cons.IH by (cases "m a") auto
qed

lemma RI_append:
  "ReplaceInterpolations (xs @ ys) m = ReplaceInterpolations ys (ReplaceInterpolations xs m)"
  by (induction xs arbitrary: m) (auto split: option.splits)

lemma RI_None: "(ReplaceInterpolations ks m k = None) = (m k = None)"
proof (induction ks arbitrary: m)
  case Nil
  then show ?case by simp
next
  case (Cons a ks)
  show ?case
  proof (cases "m a")
    case None
    then show ?thesis using Cons.IH [of m] by simp
  next
    case (Some v)
    have "(ReplaceInterpolations ks (m(a \<mapsto> replaced m v)) k = None)
            = ((m(a \<mapsto> replaced m v)) k = None)" by (rule Cons.IH)
    with Some show ?thesis by auto
  qed
qed

lemma RI_at:
  assumes "distinct ks" and "k \<in> set ks" and "m k = Some v"
  shows "ReplaceInterpolations ks m k =
           Some (replaced (ReplaceInterpolations (takeWhile (\<lambda>x. x \<noteq> k) ks) m) v)"
proof -
  from assms(2) obtain pre post where ks: "ks = pre @ k # post" and pre: "k \<notin> set pre"
    by (meson split_list_first)
  with assms(1) have post: "k \<notin> set post" by auto
  have tw: "takeWhile (\<lambda>x. x \<noteq> k) ks = pre" unfolding ks using pre
    by (induction pre) auto
  let ?m1 = "ReplaceInterpolations pre m"
  have m1k: "?m1 k = Some v" using RI_other [OF pre] assms(3) by simp
  have "ReplaceInterpolations ks m k = ReplaceInterpolations (k # post) ?m1 k"
    by (simp add: ks RI_append)
  also have "\<dots> = ReplaceInterpolations post (?m1(k \<mapsto> replaced ?m1 v)) k"
    using m1k by simp
  also have "\<dots> = Some (replaced ?m1 v)" using RI_other [OF post] by simp
  finally show ?thesis by (simp add: tw)
qed

subsection \<open>Seeding and flattening\<close>

lemma SplitN2_entry:
  assumes "CHR ''='' \<notin> set n"
  shows "SplitN2 (n @ ''='' @ v) (CHR ''='') = [n, v]"
proof -
  have "takeWhile (\<lambda>x. x \<noteq> CHR ''='') (n @ CHR ''='' # v) = n"
    using assms by (induction n) auto
  moreover have "dropWhile (\<lambda>x. x \<noteq> CHR ''='') (n @ CHR ''='' # v) = CHR ''='' # v"
    using assms by (induction n) auto
  ultimately show ?thesis by (simp add: SplitN2_def)
qed

lemma seedEnv_entries:
  assumes "\<forall>nv \<in> set pairs. CHR ''='' \<notin> set (fst nv)" and "distinct (map fst pairs)"
  shows "seedEnv (map entry pairs) m = Some (m ++ map_of pairs)"
  using assms
proof (induction pairs arbitrary: m)
  case Nil
  then show ?case by simp
next
  case (Cons nv pairs)
  obtain n v where nv: "nv = (n, v)" by (cases nv)
  with Cons.prems have n: "CHR ''='' \<notin> set n" and fresh: "n \<notin> fst ` set pairs"
    and rest: "\<forall>nv \<in> set pairs. CHR ''='' \<notin> set (fst nv)" "distinct (map fst pairs)"
    by auto
  have "seedEnv (map entry (nv # pairs)) m = seedEnv (map entry pairs) (m(n \<mapsto> v))"
    using SplitN2_entry [OF n, of v] nv by (simp add: entry_def)
  also have "\<dots> = Some (m(n \<mapsto> v) ++ map_of pairs)" using rest by (rule Cons.IH)
  also have "m(n \<mapsto> v) ++ map_of pairs = m ++ map_of (nv # pairs)"
  proof
    fix k
    from fresh have "map_of pairs n = None" by (simp add: map_of_eq_None_iff)
    then show "(m(n \<mapsto> v) ++ map_of pairs) k = (m ++ map_of (nv # pairs)) k"
      by (auto simp: nv map_add_def split: option.splits)
  qed
  finally show ?case .
qed

lemma RI_keeps_plain:
  "m k = Some v \<Longrightarrow> \<not> hasMatch v \<Longrightarrow> ReplaceInterpolations ks m k = Some v"
proof (induction ks arbitrary: m)
  case Nil
  then show ?case by simp
next
  case (Cons a ks)
  show ?case
  proof (cases "m a")
    case None
    moreover from Cons.prems have "ReplaceInterpolations ks m k = Some v" by (rule Cons.IH)
    ultimately show ?thesis by simp
  next
    case (Some u)
    have "(m(a \<mapsto> replaced m u)) k = Some v"
      using Cons.prems Some by (auto simp: replaced_def no_match_unchanged)
    then have "ReplaceInterpolations ks (m(a \<mapsto> replaced m u)) k = Some v"
      using Cons.prems(2) by (rule Cons.IH)
    with Some show ?thesis by simp
  qed
qed

lemma RI_dom: "dom (ReplaceInterpolations ks m) = dom m"
  by (auto simp: dom_def RI_None)

lemma StringArray_map:
  "set ks \<subseteq> dom m \<Longrightarrow>
     StringArray ks m = map (\<lambda>k. k @ ''='' @ the (m k)) ks"
  by (induction ks) (auto split: option.splits)

lemma mset_distinct_subset:
  assumes "distinct xs" and "distinct ys" and "set xs \<subseteq> set ys"
  shows "mset xs \<subseteq># mset ys"
proof -
  have "mset_set (set xs) \<subseteq># mset_set (set ys)"
    using assms(3) by (rule subset_imp_msubset_mset_set) simp
  with assms(1,2) show ?thesis by (simp add: mset_set_set)
qed

lemma flatten_contains:
  assumes "distinct (map fst pairs)" and "\<forall>nv \<in> set pairs. F (fst nv) = Some (snd nv)"
    and "rangeOrder F so"
  shows "mset (map entry pairs) \<subseteq># mset (StringArray so F)"
    and "dom F = fst ` set pairs \<Longrightarrow> mset (StringArray so F) = mset (map entry pairs)"
proof -
  let ?g = "\<lambda>k. k @ ''='' @ the (F k)"
  from assms(3) have so: "distinct so" "set so = dom F" by (auto simp: rangeOrder_def)
  then have sa: "StringArray so F = map ?g so" by (simp add: StringArray_map)
  have en: "map entry pairs = map ?g (map fst pairs)"
    using assms(2) by (auto simp: entry_def)
  have sub: "set (map fst pairs) \<subseteq> set so" using assms(2) so by auto
  have "mset (map fst pairs) \<subseteq># mset so"
    using assms(1) so(1) sub by (rule mset_distinct_subset)
  then have "image_mset ?g (mset (map fst pairs)) \<subseteq># image_mset ?g (mset so)"
    by (rule image_mset_subseteq_mono)
  then have "mset (map ?g (map fst pairs)) \<subseteq># mset (map ?g so)"
    by (simp only: mset_map)
  then show "mset (map entry pairs) \<subseteq># mset (StringArray so F)"
    by (simp only: sa en)
  assume "dom F = fst ` set pairs"
  with so have "set (map fst pairs) = set so" by simp
  with assms(1) so(1) have "mset (map fst pairs) = mset so"
    by (simp only: set_eq_iff_mset_eq_distinct)
  then have "mset (map ?g (map fst pairs)) = mset (map ?g so)"
    by (simp only: mset_map)
  then show "mset (StringArray so F) = mset (map entry pairs)"
    by (simp only: sa en)
qed

lemma flatten_size:
  assumes "rangeOrder F so"
  shows "length (StringArray so F) = card (dom F)"
proof -
  from assms have so: "distinct so" "set so = dom F" by (auto simp: rangeOrder_def)
  then have "StringArray so F = map (\<lambda>k. k @ ''='' @ the (F k)) so"
    by (simp add: StringArray_map)
  then have "length (StringArray so F) = length so" by simp
  also have "\<dots> = card (set so)" using so(1) by (simp add: distinct_card)
  finally show ?thesis using so(2) by simp
qed

lemma AddParams_dom: "dom (AddParams ps m) = dom m \<union> bareName ` set ps"
proof (induction ps arbitrary: m)
  case Nil
  then show ?case by simp
next
  case (Cons p ps)
  show ?case
  proof (cases "m (bareName p)")
    case None
    have "dom (AddParams ps (m(bareName p \<mapsto> Value p))) =
            dom (m(bareName p \<mapsto> Value p)) \<union> bareName ` set ps" by (rule Cons.IH)
    with None show ?thesis by (auto simp: Let_def)
  next
    case (Some v)
    have "dom (AddParams ps m) = dom m \<union> bareName ` set ps" by (rule Cons.IH)
    with Some show ?thesis by (auto simp: Let_def)
  qed
qed

subsection \<open>The fetcher and the driver\<close>

text \<open>The counter does not come back to 0 before \<open>2^64\<close> calls.\<close>

lemma itr_succ_nonzero:
  assumes "unat (itr :: 64 word) + 1 < 2 ^ 64"
  shows "itr + 1 \<noteq> 0"
proof
  assume "itr + 1 = 0"
  then have "unat (itr + 1) = 0" by simp
  moreover have "unat (itr + 1) = (unat itr + unat (1 :: 64 word)) mod 2 ^ LENGTH(64)"
    by (rule unat_word_ariths)
  ultimately show False using assms by simp
qed

lemma itr_succ_unat: "unat (itr + 1 :: 64 word) \<le> unat itr + 1"
  by unat_arith

text \<open>
  On a finite exchange the fetcher returns: with the error and no parameters when the
  exchange ends in an error, with all the parameters otherwise.
\<close>

lemma getParameters_answers:
  assumes "answers c p tok rs"
    and "itr = 0 \<or> tok \<noteq> None"
    and "failure rs = None \<longrightarrow> unat itr + length rs < 2 ^ 64"
  shows "getParameters \<lparr>Client = c, Path = p, NextToken = tok, FetchedParams = acc\<rparr> itr tr =
           Some ((case failure rs of Some e \<Rightarrow> ([], Some e) | None \<Rightarrow> (acc @ fetched rs, None)),
                 tr @ requestsOf p tok rs)"
  using assms
proof (induction rs arbitrary: tok itr acc tr)
  case Nil
  then show ?case by simp
next
  case (Cons r rs)
  from Cons.prems(1) have r: "c (byPath p tok) = r" by simp
  from Cons.prems(2) have go: "\<not> (itr \<noteq> 0 \<and> tok = None)" by auto
  show ?case
  proof (cases r)
    case (Inl e)
    with r go show ?thesis by (subst getParameters.simps) simp
  next
    case (Inr page)
    let ?tr = "tr @ [Sleep 100, Request (byPath p tok)]"
    have step: "getParameters \<lparr>Client = c, Path = p, NextToken = tok, FetchedParams = acc\<rparr> itr tr =
                getParameters \<lparr>Client = c, Path = p, NextToken = snd page,
                               FetchedParams = acc @ fst page\<rparr> (itr + 1) ?tr"
      using r go Inr by (subst getParameters.simps) auto
    show ?thesis
    proof (cases "snd page")
      case None
      with Cons.prems(1) Inr have rs: "rs = []" by simp
      with Cons.prems(3) Inr have "unat itr + 1 < 2 ^ 64" by simp
      then have "itr + 1 \<noteq> 0" by (rule itr_succ_nonzero)
      then have "getParameters \<lparr>Client = c, Path = p, NextToken = snd page,
                               FetchedParams = acc @ fst page\<rparr> (itr + 1) ?tr =
                 Some ((acc @ fst page, None), ?tr)"
        using None by (subst getParameters.simps) simp
      with step rs Inr show ?thesis by simp
    next
      case (Some t)
      with Cons.prems(1) Inr have a: "answers c p (snd page) rs" by simp
      have b: "itr + 1 = 0 \<or> snd page \<noteq> None" using Some by simp
      have c: "failure rs = None \<longrightarrow> unat (itr + 1) + length rs < 2 ^ 64"
        using Cons.prems(3) Inr itr_succ_unat [of itr] by auto
      from Cons.IH [OF a b c, of "acc @ fst page" ?tr] step Inr
      show ?thesis by (simp split: option.splits)
    qed
  qed
qed

lemma getParameters_fails:
  assumes "answers c p None rs" and "failure rs = Some e"
  shows "getParameters \<lparr>Client = c, Path = p, NextToken = None, FetchedParams = acc\<rparr> 0 tr =
           Some (([], Some e), tr @ requestsOf p None rs)"
  using getParameters_answers [OF assms(1), of 0 acc tr] assms(2) by simp

lemma getParameters_succeeds:
  assumes "answers c p None rs" and "failure rs = None" and "length rs < 2 ^ 64"
  shows "getParameters \<lparr>Client = c, Path = p, NextToken = None, FetchedParams = acc\<rparr> 0 tr =
           Some ((acc @ fetched rs, None), tr @ requestsOf p None rs)"
  using getParameters_answers [OF assms(1), of 0 acc tr] assms(2,3) by simp

lemma requests_answers:
  "answers c p tok rs \<Longrightarrow> length (requests (requestsOf p tok rs)) = length rs"
  by (induction rs arbitrary: tok) (auto split: sum.splits if_splits)

text \<open>What holds of any run that returns, whatever the client.\<close>

lemma getParameters_trace:
  assumes "getParameters params itr tr = Some y"
  shows "fetchTrace params itr tr y"
proof (rule getParameters.raw_induct [where P = fetchTrace, OF _ assms], goal_cases)
  case (1 gp params itr tr y)
  show ?case
  proof (cases "itr \<noteq> 0 \<and> NextToken params = None")
    case True
    with 1(2) show ?thesis by (auto simp: fetchTrace_def)
  next
    case False
    let ?ev = "[Sleep 100, Request (byPath (Path params) (NextToken params))]"
    show ?thesis
    proof (cases "Client params (byPath (Path params) (NextToken params))")
      case (Inl err)
      with False 1(2) have "y = (([], Some err), tr @ ?ev)" by auto
      then show ?thesis by (auto simp: fetchTrace_def)
    next
      case (Inr result)
      with False 1(2) have "gp
               \<lparr>Client = Client params, Path = Path params, NextToken = snd result,
                FetchedParams = FetchedParams params @ fst result\<rparr>
               (itr + 1) (tr @ ?ev) = Some y" by auto
      from 1(1) [OF this] obtain rest where
        "snd y = (tr @ ?ev) @ rest" and "list_all isFetch rest"
        and "snd (fst y) \<noteq> None \<longrightarrow> fst (fst y) = []"
        unfolding fetchTrace_def by blast
      then have "snd y = tr @ (?ev @ rest) \<and> list_all isFetch (?ev @ rest) \<and>
                 (\<exists>r. Request r \<in> set (?ev @ rest)) \<and>
                 (snd (fst y) \<noteq> None \<longrightarrow> fst (fst y) = [])"
        by auto
      then show ?thesis unfolding fetchTrace_def by blast
    qed
  qed
qed

lemma contains_iff: "contains a x = (x \<in> set a)"
  by (induction a) auto

lemma fetchApp_Inr:
  assumes "fetchApp report svc e a allParams tr = Some (Inr (ps, tr'))"
  shows "\<exists>rest. tr' = tr @ rest \<and> list_all isFetch rest \<and> ((\<exists>r. Request r \<in> set rest) = (a \<noteq> []))"
proof (cases "a = []")
  case True
  with assms show ?thesis by (simp add: fetchApp_def)
next
  case False
  with assms obtain y where
    g: "getParameters \<lparr>Client = svc, Path = ''/'' @ e @ ''/'' @ a @ ''/'',
                        NextToken = None, FetchedParams = []\<rparr> 0 tr = Some y"
    and y: "snd y = tr'"
    by (auto simp: fetchApp_def split: option.splits prod.splits)
  from getParameters_trace [OF g] y False show ?thesis
    by (auto simp: fetchTrace_def)
qed

lemma fetchApp_Inl:
  assumes "fetchApp report svc e a allParams tr = Some (Inl (tr', out))"
  shows "out = Exit 1 \<and> a \<noteq> [] \<and>
         (\<exists>rest msg. tr' = tr @ rest @ [report msg] \<and> list_all isFetch rest \<and>
            (\<exists>r. Request r \<in> set rest))"
proof (cases "a = []")
  case True
  with assms show ?thesis by (simp add: fetchApp_def)
next
  case False
  with assms obtain y msg where
    g: "getParameters \<lparr>Client = svc, Path = ''/'' @ e @ ''/'' @ a @ ''/'',
                        NextToken = None, FetchedParams = []\<rparr> 0 tr = Some y"
    and y: "tr' = snd y @ [report msg]" and o: "out = Exit 1"
    by (auto simp: fetchApp_def split: option.splits prod.splits)
  from getParameters_trace [OF g] y o False show ?thesis
    by (auto simp: fetchTrace_def)
qed

lemma fetchShared_Inr:
  assumes "fetchShared report svc e a = Some (Inr (ps, tr))"
  shows "list_all isFetch tr \<and> ((\<exists>r. Request r \<in> set tr) = (e \<noteq> [] \<or> a \<noteq> []))"
proof (cases "e = []")
  case True
  with assms have "fetchApp report svc e a [] [] = Some (Inr (ps, tr))"
    by (simp add: fetchShared_def)
  from fetchApp_Inr [OF this] True show ?thesis by auto
next
  case False
  with assms obtain y where
    g: "getParameters \<lparr>Client = svc, Path = ''/'' @ e @ ''/'',
                        NextToken = None, FetchedParams = []\<rparr> 0 [] = Some y"
    and f: "fetchApp report svc e a (fst (fst y)) (snd y) = Some (Inr (ps, tr))"
    by (auto simp: fetchShared_def split: option.splits prod.splits)
  from getParameters_trace [OF g] obtain r0 where
    "list_all isFetch (snd y)" and "Request r0 \<in> set (snd y)"
    by (auto simp: fetchTrace_def)
  with fetchApp_Inr [OF f] False show ?thesis by auto
qed

lemma fetchShared_Inl:
  assumes "fetchShared report svc e a = Some (Inl (tr, out))"
  shows "out = Exit 1 \<and> (e \<noteq> [] \<or> a \<noteq> []) \<and>
         (\<exists>pre msg. tr = pre @ [report msg] \<and> list_all isFetch pre \<and>
            (\<exists>r. Request r \<in> set pre))"
proof (cases "e = []")
  case True
  with assms have "fetchApp report svc e a [] [] = Some (Inl (tr, out))"
    by (simp add: fetchShared_def)
  from fetchApp_Inl [OF this] show ?thesis by auto
next
  case False
  with assms obtain y where
    g: "getParameters \<lparr>Client = svc, Path = ''/'' @ e @ ''/'',
                        NextToken = None, FetchedParams = []\<rparr> 0 [] = Some y"
    and f: "(\<exists>msg. tr = snd y @ [report msg] \<and> out = Exit 1) \<or>
            fetchApp report svc e a (fst (fst y)) (snd y) = Some (Inl (tr, out))"
    by (auto simp: fetchShared_def split: option.splits prod.splits)
  from getParameters_trace [OF g] obtain r0 where
    t: "list_all isFetch (snd y)" "Request r0 \<in> set (snd y)"
    by (auto simp: fetchTrace_def)
  from f show ?thesis
  proof
    assume "\<exists>msg. tr = snd y @ [report msg] \<and> out = Exit 1"
    with t False show ?thesis by auto
  next
    assume "fetchApp report svc e a (fst (fst y)) (snd y) = Some (Inl (tr, out))"
    from fetchApp_Inl [OF this] obtain rest msg where
      "out = Exit 1" and "tr = (snd y @ rest) @ [report msg]" and "list_all isFetch rest"
      by auto
    with t False show ?thesis by (intro conjI exI [of _ "snd y @ rest"] exI [of _ msg]) auto
  qed
qed

lemma fetchApp_fails:
  assumes "a \<noteq> []" and "answers svc (''/'' @ e @ ''/'' @ a @ ''/'') None rs"
    and "failure rs = Some err"
  shows "fetchApp report svc e a allParams tr =
           Some (Inl (tr @ requestsOf (''/'' @ e @ ''/'' @ a @ ''/'') None rs @
                        [report (''Error fetching app params:  '' @ message err)], Exit 1))"
  using assms(1) getParameters_fails [OF assms(2,3), of "[]" tr]
  by (simp add: fetchApp_def)

lemma fetchShared_fails:
  assumes "e \<noteq> []" and "answers svc (''/'' @ e @ ''/'') None rs" and "failure rs = Some err"
  shows "fetchShared report svc e a =
           Some (Inl (requestsOf (''/'' @ e @ ''/'') None rs @
                        [report (''Error fetching shared params:  '' @ message err)], Exit 1))"
  using assms(1) getParameters_fails [OF assms(2,3), of "[]" "[]"]
  by (simp add: fetchShared_def)

lemma fetchShared_then_app:
  assumes "e = [] \<and> rsS = [] \<or>
           e \<noteq> [] \<and> answers svc (''/'' @ e @ ''/'') None rsS \<and> failure rsS = None \<and>
             length rsS < 2 ^ 64"
  shows "fetchShared report svc e a =
           fetchApp report svc e a (fetched rsS) (requestsOf (''/'' @ e @ ''/'') None rsS)"
proof (cases "e = []")
  case True
  with assms show ?thesis by (auto simp: fetchShared_def)
next
  case False
  with assms have a: "answers svc (''/'' @ e @ ''/'') None rsS" "failure rsS = None"
    "length rsS < 2 ^ 64" by auto
  from getParameters_succeeds [OF a, of "[]" "[]"] False show ?thesis
    by (simp add: fetchShared_def)
qed

lemma isFetch_no_Start: "list_all isFetch pre \<Longrightarrow> Start n a e \<notin> set pre"
  by (auto simp: list_all_iff)

lemma requests_append: "requests (xs @ ys) = requests xs @ requests ys"
  by (induction xs rule: requests.induct) auto

lemma requestsOf_isFetch: "list_all isFetch (requestsOf p tok rs)"
  by (induction rs arbitrary: tok) (auto split: sum.splits)

lemma fetchedScope_requests:
  "fetchedScope svc configured path rs \<Longrightarrow> length (requests (requestsOf path None rs)) = length rs"
  by (auto simp: fetchedScope_def requests_answers split: if_splits)

lemma fetchedScope_empty:
  "fetchedScope svc configured path rs \<Longrightarrow> (rs = []) = (\<not> configured)"
  by (cases rs) (auto simp: fetchedScope_def split: if_splits)

lemma fetchApp_succeeds:
  assumes "fetchedScope svc (a \<noteq> []) (''/'' @ e @ ''/'' @ a @ ''/'') rs"
  shows "fetchApp report svc e a allParams tr =
           Some (Inr (allParams @ fetched rs, tr @ requestsOf (''/'' @ e @ ''/'' @ a @ ''/'') None rs))"
proof (cases "a = []")
  case True
  with assms show ?thesis by (simp add: fetchApp_def fetchedScope_def)
next
  case False
  with assms have a: "answers svc (''/'' @ e @ ''/'' @ a @ ''/'') None rs" "failure rs = None"
    "length rs < 2 ^ 64" by (auto simp: fetchedScope_def)
  from getParameters_succeeds [OF a, of "[]" tr] False show ?thesis
    by (simp add: fetchApp_def)
qed

lemma fetchShared_succeeds:
  assumes "fetchedScope svc (e \<noteq> []) (''/'' @ e @ ''/'') rsS"
    and "fetchedScope svc (a \<noteq> []) (''/'' @ e @ ''/'' @ a @ ''/'') rsA"
  shows "fetchShared report svc e a =
           Some (Inr (fetched rsS @ fetched rsA,
                      requestsOf (''/'' @ e @ ''/'') None rsS @
                      requestsOf (''/'' @ e @ ''/'' @ a @ ''/'') None rsA))"
proof -
  from assms(1) have "e = [] \<and> rsS = [] \<or>
      e \<noteq> [] \<and> answers svc (''/'' @ e @ ''/'') None rsS \<and> failure rsS = None \<and>
        length rsS < 2 ^ 64"
    by (auto simp: fetchedScope_def split: if_splits)
  then have "fetchShared report svc e a =
      fetchApp report svc e a (fetched rsS) (requestsOf (''/'' @ e @ ''/'') None rsS)"
    by (rule fetchShared_then_app)
  with fetchApp_succeeds [OF assms(2)] show ?thesis by simp
qed

lemma fetchShared_app_fails:
  assumes "fetchedScope svc (e \<noteq> []) (''/'' @ e @ ''/'') rsS"
    and "a \<noteq> []" and "failedScope svc (''/'' @ e @ ''/'' @ a @ ''/'') rsA err"
  shows "fetchShared report svc e a =
           Some (Inl (requestsOf (''/'' @ e @ ''/'') None rsS @
                      requestsOf (''/'' @ e @ ''/'' @ a @ ''/'') None rsA @
                        [report (''Error fetching app params:  '' @ message err)], Exit 1))"
proof -
  from assms(1) have "e = [] \<and> rsS = [] \<or>
      e \<noteq> [] \<and> answers svc (''/'' @ e @ ''/'') None rsS \<and> failure rsS = None \<and>
        length rsS < 2 ^ 64"
    by (auto simp: fetchedScope_def split: if_splits)
  then have "fetchShared report svc e a =
      fetchApp report svc e a (fetched rsS) (requestsOf (''/'' @ e @ ''/'') None rsS)"
    by (rule fetchShared_then_app)
  moreover from assms(3) have "answers svc (''/'' @ e @ ''/'' @ a @ ''/'') None rsA"
    and "failure rsA = Some err" by (auto simp: failedScope_def)
  ultimately show ?thesis using fetchApp_fails [OF assms(2), of svc e rsA err report] by simp
qed

lemma fetchShared_shared_fails:
  assumes "e \<noteq> []" and "failedScope svc (''/'' @ e @ ''/'') rsS err"
  shows "fetchShared report svc e a =
           Some (Inl (requestsOf (''/'' @ e @ ''/'') None rsS @
                        [report (''Error fetching shared params:  '' @ message err)], Exit 1))"
  using assms fetchShared_fails [of e svc rsS err report a] by (simp add: failedScope_def)

text \<open>
  What a run without a command, or with a request for help, comes to: a panic when the
  session or the seeding fails, otherwise the requests of the scopes and then the
  usage text, or the requests up to the failing one and then its log line.
\<close>

lemma main_stops:
  assumes "args = [] \<or> contains args ''-h'' \<or> contains args ''--help''"
  shows "main environ args (Inl e) child ro so = Some ([], Panic)"
    and "getOSEnv environ = None \<Longrightarrow> main environ args (Inr svc) child ro so = Some ([], Panic)"
    and "getOSEnv environ \<noteq> None \<Longrightarrow>
         fetchedScope svc (appEnvOf environ \<noteq> []) (sharedPath environ) rsS \<Longrightarrow>
         fetchedScope svc (Getenv environ ''APP_NAME'' \<noteq> []) (appPath environ) rsA \<Longrightarrow>
         main environ args (Inr svc) child ro so =
           Some (requestsOf (sharedPath environ) None rsS @
                 requestsOf (appPath environ) None rsA @ map Println usage, Exit 0)"
    and "getOSEnv environ \<noteq> None \<Longrightarrow> appEnvOf environ \<noteq> [] \<Longrightarrow>
         failedScope svc (sharedPath environ) rsS err \<Longrightarrow>
         main environ args (Inr svc) child ro so =
           Some (requestsOf (sharedPath environ) None rsS @
                   [Logln (''Error fetching shared params:  '' @ message err)], Exit 1)"
    and "getOSEnv environ \<noteq> None \<Longrightarrow>
         fetchedScope svc (appEnvOf environ \<noteq> []) (sharedPath environ) rsS \<Longrightarrow>
         Getenv environ ''APP_NAME'' \<noteq> [] \<Longrightarrow>
         failedScope svc (appPath environ) rsA err \<Longrightarrow>
         main environ args (Inr svc) child ro so =
           Some (requestsOf (sharedPath environ) None rsS @
                 requestsOf (appPath environ) None rsA @
                   [Logln (''Error fetching app params:  '' @ message err)], Exit 1)"
proof -
  show "main environ args (Inl e) child ro so = Some ([], Panic)" by (simp add: main_def)
  show "getOSEnv environ = None \<Longrightarrow> main environ args (Inr svc) child ro so = Some ([], Panic)"
    by (simp add: main_def)
  show "main environ args (Inr svc) child ro so =
           Some (requestsOf (sharedPath environ) None rsS @
                 requestsOf (appPath environ) None rsA @ map Println usage, Exit 0)"
    if "getOSEnv environ \<noteq> None"
      and "fetchedScope svc (appEnvOf environ \<noteq> []) (sharedPath environ) rsS"
      and "fetchedScope svc (Getenv environ ''APP_NAME'' \<noteq> []) (appPath environ) rsA"
    using that assms
      fetchShared_succeeds [of svc "appEnvOf environ" rsS "Getenv environ ''APP_NAME''" rsA Logln]
    by (auto simp: main_def sharedPath_def appPath_def)
  show "main environ args (Inr svc) child ro so =
           Some (requestsOf (sharedPath environ) None rsS @
                   [Logln (''Error fetching shared params:  '' @ message err)], Exit 1)"
    if "getOSEnv environ \<noteq> None" and "appEnvOf environ \<noteq> []"
      and "failedScope svc (sharedPath environ) rsS err"
    using that
      fetchShared_shared_fails [of "appEnvOf environ" svc rsS err Logln "Getenv environ ''APP_NAME''"]
    by (auto simp: main_def sharedPath_def)
  show "main environ args (Inr svc) child ro so =
           Some (requestsOf (sharedPath environ) None rsS @
                 requestsOf (appPath environ) None rsA @
                   [Logln (''Error fetching app params:  '' @ message err)], Exit 1)"
    if "getOSEnv environ \<noteq> None"
      and "fetchedScope svc (appEnvOf environ \<noteq> []) (sharedPath environ) rsS"
      and "Getenv environ ''APP_NAME'' \<noteq> []"
      and "failedScope svc (appPath environ) rsA err"
    using that
      fetchShared_app_fails [of svc "appEnvOf environ" rsS "Getenv environ ''APP_NAME''" rsA err Logln]
    by (auto simp: main_def sharedPath_def appPath_def)
qed

lemma main_required_stops:
  shows "main_required environ [] (Inl e) child ro so = Some ([], Panic)"
    and "getOSEnv environ = None \<Longrightarrow>
         main_required environ [] (Inr svc) child ro so = Some ([], Panic)"
    and "getOSEnv environ \<noteq> None \<Longrightarrow>
         fetchedScope svc (appEnvOf environ \<noteq> []) (sharedPath environ) rsS \<Longrightarrow>
         fetchedScope svc (Getenv environ ''APP_NAME'' \<noteq> []) (appPath environ) rsA \<Longrightarrow>
         main_required environ [] (Inr svc) child ro so =
           Some (requestsOf (sharedPath environ) None rsS @
                 requestsOf (appPath environ) None rsA @
                   [Logln ''ssm-loader requires a command to run''], Exit 1)"
    and "getOSEnv environ \<noteq> None \<Longrightarrow> appEnvOf environ \<noteq> [] \<Longrightarrow>
         failedScope svc (sharedPath environ) rsS err \<Longrightarrow>
         main_required environ [] (Inr svc) child ro so =
           Some (requestsOf (sharedPath environ) None rsS @
                   [Logln (''Error fetching shared params:  '' @ message err)], Exit 1)"
    and "getOSEnv environ \<noteq> None \<Longrightarrow>
         fetchedScope svc (appEnvOf environ \<noteq> []) (sharedPath environ) rsS \<Longrightarrow>
         Getenv environ ''APP_NAME'' \<noteq> [] \<Longrightarrow>
         failedScope svc (appPath environ) rsA err \<Longrightarrow>
         main_required environ [] (Inr svc) child ro so =
           Some (requestsOf (sharedPath environ) None rsS @
                 requestsOf (appPath environ) None rsA @
                   [Logln (''Error fetching app params:  '' @ message err)], Exit 1)"
proof -
  show "main_required environ [] (Inl e) child ro so = Some ([], Panic)"
    by (simp add: main_required_def)
  show "getOSEnv environ = None \<Longrightarrow>
        main_required environ [] (Inr svc) child ro so = Some ([], Panic)"
    by (simp add: main_required_def)
  show "main_required environ [] (Inr svc) child ro so =
           Some (requestsOf (sharedPath environ) None rsS @
                 requestsOf (appPath environ) None rsA @
                   [Logln ''ssm-loader requires a command to run''], Exit 1)"
    if "getOSEnv environ \<noteq> None"
      and "fetchedScope svc (appEnvOf environ \<noteq> []) (sharedPath environ) rsS"
      and "fetchedScope svc (Getenv environ ''APP_NAME'' \<noteq> []) (appPath environ) rsA"
    using that
      fetchShared_succeeds [of svc "appEnvOf environ" rsS "Getenv environ ''APP_NAME''" rsA Logln]
    by (auto simp: main_required_def sharedPath_def appPath_def)
  show "main_required environ [] (Inr svc) child ro so =
           Some (requestsOf (sharedPath environ) None rsS @
                   [Logln (''Error fetching shared params:  '' @ message err)], Exit 1)"
    if "getOSEnv environ \<noteq> None" and "appEnvOf environ \<noteq> []"
      and "failedScope svc (sharedPath environ) rsS err"
    using that
      fetchShared_shared_fails [of "appEnvOf environ" svc rsS err Logln "Getenv environ ''APP_NAME''"]
    by (auto simp: main_required_def sharedPath_def)
  show "main_required environ [] (Inr svc) child ro so =
           Some (requestsOf (sharedPath environ) None rsS @
                 requestsOf (appPath environ) None rsA @
                   [Logln (''Error fetching app params:  '' @ message err)], Exit 1)"
    if "getOSEnv environ \<noteq> None"
      and "fetchedScope svc (appEnvOf environ \<noteq> []) (sharedPath environ) rsS"
      and "Getenv environ ''APP_NAME'' \<noteq> []"
      and "failedScope svc (appPath environ) rsA err"
    using that
      fetchShared_app_fails [of svc "appEnvOf environ" rsS "Getenv environ ''APP_NAME''" rsA err Logln]
    by (auto simp: main_required_def sharedPath_def appPath_def)
qed

text \<open>
  The same for any client, of a run that returns: it has started no child, and has
  asked the store exactly when a scope is configured.
\<close>

lemma main_usage:
  assumes "args = [] \<or> contains args ''-h'' \<or> contains args ''--help''"
    and "getOSEnv environ = Some pm"
    and "main environ args (Inr svc) child ro so = Some (tr, out)"
  shows "(\<forall>n a e. Start n a e \<notin> set tr) \<and>
         ((\<exists>r. Request r \<in> set tr) = (appEnvOf environ \<noteq> [] \<or> Getenv environ ''APP_NAME'' \<noteq> [])) \<and>
         (out = Exit 0 \<and> (\<exists>pre. tr = pre @ map Println usage \<and> list_all isFetch pre) \<or>
          out = Exit 1 \<and> (\<exists>pre msg. tr = pre @ [Logln msg] \<and> list_all isFetch pre \<and>
                            (\<exists>r. Request r \<in> set pre)))"
proof (cases "fetchShared Logln svc (appEnvOf environ) (Getenv environ ''APP_NAME'')")
  case None
  with assms(2,3) show ?thesis by (simp add: main_def)
next
  case (Some res)
  show ?thesis
  proof (cases res)
    case (Inl stop)
    with Some assms(2,3) have f: "fetchShared Logln svc (appEnvOf environ) (Getenv environ ''APP_NAME'')
        = Some (Inl (tr, out))" by (simp add: main_def)
    from fetchShared_Inl [OF f] obtain pre msg where
      o: "out = Exit 1" and c: "appEnvOf environ \<noteq> [] \<or> Getenv environ ''APP_NAME'' \<noteq> []"
      and t: "tr = pre @ [Logln msg]" and p: "list_all isFetch pre"
      and r: "\<exists>r. Request r \<in> set pre" by blast
    have "\<forall>n a e. Start n a e \<notin> set tr" using t isFetch_no_Start [OF p] by auto
    moreover have "\<exists>r. Request r \<in> set tr" using t r by auto
    ultimately show ?thesis using o c t p r by blast
  next
    case (Inr ok)
    obtain ps pre where ok: "ok = (ps, pre)" by (cases ok)
    with Inr Some have f: "fetchShared Logln svc (appEnvOf environ) (Getenv environ ''APP_NAME'')
        = Some (Inr (ps, pre))" by simp
    with assms have o: "out = Exit 0" and t: "tr = pre @ map Println usage"
      by (auto simp: main_def Let_def)
    from fetchShared_Inr [OF f] have p: "list_all isFetch pre"
      and r: "(\<exists>r. Request r \<in> set pre) =
              (appEnvOf environ \<noteq> [] \<or> Getenv environ ''APP_NAME'' \<noteq> [])" by auto
    have "\<forall>n a e. Start n a e \<notin> set tr" using t isFetch_no_Start [OF p] by auto
    moreover have "(\<exists>r. Request r \<in> set tr) = (\<exists>r. Request r \<in> set pre)"
      using t by auto
    ultimately show ?thesis using o t p r by blast
  qed
qed

lemma main_required_no_command:
  assumes "getOSEnv environ = Some pm"
    and "main_required environ [] (Inr svc) child ro so = Some (tr, out)"
  shows "(\<forall>n a e. Start n a e \<notin> set tr) \<and>
         ((\<exists>r. Request r \<in> set tr) = (appEnvOf environ \<noteq> [] \<or> Getenv environ ''APP_NAME'' \<noteq> [])) \<and>
         out = Exit 1 \<and>
         (\<exists>pre msg. tr = pre @ [Logln msg] \<and> list_all isFetch pre \<and>
            (msg = ''ssm-loader requires a command to run'' \<or> (\<exists>r. Request r \<in> set pre)))"
proof (cases "fetchShared Logln svc (appEnvOf environ) (Getenv environ ''APP_NAME'')")
  case None
  with assms show ?thesis by (simp add: main_required_def)
next
  case (Some res)
  show ?thesis
  proof (cases res)
    case (Inl stop)
    with Some assms have f: "fetchShared Logln svc (appEnvOf environ) (Getenv environ ''APP_NAME'')
        = Some (Inl (tr, out))" by (simp add: main_required_def)
    from fetchShared_Inl [OF f] obtain pre msg where
      o: "out = Exit 1" and c: "appEnvOf environ \<noteq> [] \<or> Getenv environ ''APP_NAME'' \<noteq> []"
      and t: "tr = pre @ [Logln msg]" and p: "list_all isFetch pre"
      and r: "\<exists>r. Request r \<in> set pre" by blast
    have "\<forall>n a e. Start n a e \<notin> set tr" using t isFetch_no_Start [OF p] by auto
    moreover have "\<exists>r. Request r \<in> set tr" using t r by auto
    ultimately show ?thesis using o c t p r by blast
  next
    case (Inr ok)
    obtain ps pre where ok: "ok = (ps, pre)" by (cases ok)
    with Inr Some have f: "fetchShared Logln svc (appEnvOf environ) (Getenv environ ''APP_NAME'')
        = Some (Inr (ps, pre))" by simp
    with assms have o: "out = Exit 1"
      and t: "tr = pre @ [Logln ''ssm-loader requires a command to run'']"
      by (auto simp: main_required_def Let_def)
    from fetchShared_Inr [OF f] have p: "list_all isFetch pre"
      and r: "(\<exists>r. Request r \<in> set pre) =
              (appEnvOf environ \<noteq> [] \<or> Getenv environ ''APP_NAME'' \<noteq> [])" by auto
    have "\<forall>n a e. Start n a e \<notin> set tr" using t isFetch_no_Start [OF p] by auto
    moreover have "(\<exists>r. Request r \<in> set tr) = (\<exists>r. Request r \<in> set pre)"
      using t by auto
    ultimately show ?thesis using o t p r by blast
  qed
qed

text \<open>
  The other two texts of \<^verbatim>\<open>main\<close> end a failed fetch of the shared scope the
  same way, the earliest with a printed line in place of the log line.
\<close>

lemma fetch_error_in_other_texts:
  assumes "getOSEnv environ = Some pm" and "appEnvOf environ \<noteq> []"
    and "answers svc (''/'' @ appEnvOf environ @ ''/'') None rs" and "failure rs = Some err"
  shows "main_required environ args (Inr svc) child ro so =
           Some (requestsOf (''/'' @ appEnvOf environ @ ''/'') None rs @
                   [Logln (''Error fetching shared params:  '' @ message err)], Exit 1)"
    and "main_unchecked environ args (Inr svc) child ro so =
           Some (requestsOf (''/'' @ appEnvOf environ @ ''/'') None rs @
                   [Println (''Error fetching shared params:  '' @ message err)], Exit 1)"
  using assms(1)
    fetchShared_fails [OF assms(2,3,4), of Logln "Getenv environ ''APP_NAME''"]
    fetchShared_fails [OF assms(2,3,4), of Println "Getenv environ ''APP_NAME''"]
  by (simp_all add: main_required_def main_unchecked_def)

subsection \<open>Runs on the sample stores\<close>

lemma seed_prod: "getOSEnv [''APP_ENV=prod''] = Some [''APP_ENV'' \<mapsto> ''prod'']"
  by (simp add: getOSEnv_def SplitN2_def)

lemma seed_prod_web:
  "getOSEnv [''APP_ENV=prod'', ''APP_NAME=web''] =
     Some [''APP_ENV'' \<mapsto> ''prod'', ''APP_NAME'' \<mapsto> ''web'']"
  by (simp add: getOSEnv_def SplitN2_def)

lemma length_sampleEntries: "length (sampleEntries n) = n"
  by (simp add: sampleEntries_def)

lemma run_main_unchecked_no_command:
  "main_unchecked [''APP_ENV=prod''] [] (Inr emptyStore) quietChild [] [] =
     Some ([Sleep 100, Request (byPath ''/prod/'' None)], Panic)"
  by (simp add: main_unchecked_def getOSEnv_def SplitN2_def appEnvOf_def fetchShared_def
        fetchApp_def getParameters.simps emptyStore_def byPath_def)

section \<open>The claims\<close>

subsection \<open>Interpolation\<close>

text \<open>
  C1. The claim: in every namespace with \<open>A = 1\<close> and \<open>B = 2\<close> the value
  \<^verbatim>\<open>prefix-%%A%%-%%B%%\<close> resolves to \<^verbatim>\<open>prefix-1-2\<close>, each token on its own. On the
  code the star of \<^verbatim>\<open>%%(.*)%%\<close> is greedy, so the one match runs from the first
  \<^verbatim>\<open>%%\<close> to the last, the name looked up is \<^verbatim>\<open>A%%-%%B\<close>, and the value resolves to
  \<^verbatim>\<open>prefix-\<close> followed by whatever that name holds: nothing, unless it is a key.
\<close>

theorem C1_greedy_capture_spans_both_tokens:
  "replaced m ''prefix-%%A%%-%%B%%'' =
     ''prefix-'' @ (case m ''A%%-%%B'' of Some r \<Rightarrow> r | None \<Rightarrow> [])"
  by (simp add: replaced_def matchAt_def lookupVar_def Trim_def)

lemma two_tokens_example:
  "ReplaceInterpolations [''A'', ''B'', ''X'']
     [''A'' \<mapsto> ''1'', ''B'' \<mapsto> ''2'', ''X'' \<mapsto> ''prefix-%%A%%-%%B%%''] ''X''
   = Some ''prefix-''"
  by (simp add: replaced_def matchAt_def lookupVar_def Trim_def)

text \<open>
  C8. In every namespace without the key \<^verbatim>\<open>UNDEFINED\<close> the value
  \<^verbatim>\<open>%%UNDEFINED%%\<close> resolves to the empty string, as a value on its own and as the
  value of any key of the namespace in a pass over it, whatever the order of the pass.
\<close>

theorem C8_undefined_token_is_empty:
  "m ''UNDEFINED'' = None \<Longrightarrow>
     replaced m ''%%UNDEFINED%%'' = [] \<and>
     (\<forall>ks k. distinct ks \<longrightarrow> k \<in> set ks \<longrightarrow> m k = Some ''%%UNDEFINED%%'' \<longrightarrow>
        ReplaceInterpolations ks m k = Some [])"
proof -
  assume a: "m ''UNDEFINED'' = None"
  have tok: "replaced m' ''%%UNDEFINED%%'' = []" if "m' ''UNDEFINED'' = None" for m'
    using that replaced_token [of "''UNDEFINED''" m'] by simp
  have "ReplaceInterpolations ks m k = Some []"
    if "distinct ks" and "k \<in> set ks" and "m k = Some ''%%UNDEFINED%%''" for ks k
  proof -
    let ?m1 = "ReplaceInterpolations (takeWhile (\<lambda>x. x \<noteq> k) ks) m"
    have "?m1 ''UNDEFINED'' = None" using a by (simp add: RI_None)
    then have "replaced ?m1 ''%%UNDEFINED%%'' = []" by (rule tok)
    with RI_at [of ks k m "''%%UNDEFINED%%''"] that show ?thesis by simp
  qed
  moreover from a have "replaced m ''%%UNDEFINED%%'' = []" by (rule tok)
  ultimately show ?thesis by blast
qed

theorem C8_undefined_token_is_empty_witness:
  "replaced [''K'' \<mapsto> ''%%UNDEFINED%%''] ''%%UNDEFINED%%'' = [] \<and>
   ReplaceInterpolations [''K''] [''K'' \<mapsto> ''%%UNDEFINED%%''] ''K'' = Some []"
  using C8_undefined_token_is_empty [of "[''K'' \<mapsto> ''%%UNDEFINED%%'']"] by simp

text \<open>
  C5. The pass is not a fixpoint iteration, in whatever order it meets the keys. Let
  the value of a key \<open>k\<close> hold one token \<^verbatim>\<open>%%n%%\<close> (\<open>n\<close> on one line, without a
  percent sign at either end) in text without percent signs. Then \<open>k\<close> ends up
  holding its text with, in the place of the token, exactly the value that \<open>n\<close>
  holds when the pass meets \<open>k\<close> (nothing, if \<open>n\<close> is no key): what is put in is
  not scanned again, so a token in it is left in the output. When the pass has not
  met \<open>n\<close> before \<open>k\<close>, that value is the one \<open>n\<close> had at the start. For \<open>n = k\<close>
  this is the self-reference: the lookup reads the value of \<open>k\<close> from before its
  rewrite, so \<^verbatim>\<open>FOO=%%FOO%%\<close> keeps its value and does not become empty.
\<close>

theorem C5_single_pass:
  assumes "CHR 0x0A \<notin> set n" and "n = [] \<or> (hd n \<noteq> CHR ''%'' \<and> last n \<noteq> CHR ''%'')"
    and "CHR ''%'' \<notin> set pre" and "CHR ''%'' \<notin> set post"
    and "distinct ks" and "k \<in> set ks"
    and "m k = Some (pre @ ''%%'' @ n @ ''%%'' @ post)"
  shows "ReplaceInterpolations ks m k =
           Some (pre @
                 (case ReplaceInterpolations (takeWhile (\<lambda>x. x \<noteq> k) ks) m n of
                    Some r \<Rightarrow> r | None \<Rightarrow> []) @ post) \<and>
         (n \<notin> set (takeWhile (\<lambda>x. x \<noteq> k) ks) \<longrightarrow>
            ReplaceInterpolations ks m k =
              Some (pre @ (case m n of Some r \<Rightarrow> r | None \<Rightarrow> []) @ post)) \<and>
         (n = k \<longrightarrow>
            ReplaceInterpolations ks m k =
              Some (pre @ (pre @ ''%%'' @ k @ ''%%'' @ post) @ post))"
proof -
  let ?m1 = "ReplaceInterpolations (takeWhile (\<lambda>x. x \<noteq> k) ks) m"
  have "replaced ?m1 (pre @ ''%%'' @ n @ ''%%'' @ post) =
          pre @ (case ?m1 n of Some r \<Rightarrow> r | None \<Rightarrow> []) @ post"
    using assms(1,2,3,4) by (rule replaced_token_in_text)
  with RI_at [of ks k m "pre @ ''%%'' @ n @ ''%%'' @ post"] assms(5,6,7)
  have main: "ReplaceInterpolations ks m k =
      Some (pre @ (case ?m1 n of Some r \<Rightarrow> r | None \<Rightarrow> []) @ post)" by simp
  have early: "?m1 n = m n" if "n \<notin> set (takeWhile (\<lambda>x. x \<noteq> k) ks)"
    using that by (rule RI_other)
  have "k \<notin> set (takeWhile (\<lambda>x. x \<noteq> k) ks)" by (auto dest: set_takeWhileD)
  then have self: "?m1 k = m k" by (rule RI_other)
  from main early self assms(7) show ?thesis by (auto simp del: append_assoc)
qed

theorem C5_single_pass_witness:
  "ReplaceInterpolations [''A'', ''B'', ''C'']
     [''A'' \<mapsto> ''x-%%B%%-y'', ''B'' \<mapsto> ''%%C%%'', ''C'' \<mapsto> ''z''] ''A'' = Some ''x-%%C%%-y'' \<and>
   ReplaceInterpolations [''B'', ''A'', ''C'']
     [''A'' \<mapsto> ''x-%%B%%-y'', ''B'' \<mapsto> ''%%C%%'', ''C'' \<mapsto> ''z''] ''A'' = Some ''x-z-y'' \<and>
   ReplaceInterpolations [''FOO''] [''FOO'' \<mapsto> ''%%FOO%%''] ''FOO'' = Some ''%%FOO%%''"
proof -
  let ?m = "[''A'' \<mapsto> ''x-%%B%%-y'', ''B'' \<mapsto> ''%%C%%'', ''C'' \<mapsto> ''z'']"
  have a: "ReplaceInterpolations [''A'', ''B'', ''C''] ?m ''A'' = Some ''x-%%C%%-y''"
    using C5_single_pass [where n = "''B''" and pre = "''x-''" and post = "''-y''"
        and ks = "[''A'', ''B'', ''C'']" and k = "''A''" and m = ?m]
    by simp
  have b1: "ReplaceInterpolations [''B''] ?m ''B'' = Some ''z''"
    using C5_single_pass [where n = "''C''" and pre = "[]" and post = "[]"
        and ks = "[''B'']" and k = "''B''" and m = ?m]
    by simp
  have b: "ReplaceInterpolations [''B'', ''A'', ''C''] ?m ''A'' = Some ''x-z-y''"
    using C5_single_pass [where n = "''B''" and pre = "''x-''" and post = "''-y''"
        and ks = "[''B'', ''A'', ''C'']" and k = "''A''" and m = ?m] b1
    by simp
  have c: "ReplaceInterpolations [''FOO''] [''FOO'' \<mapsto> ''%%FOO%%''] ''FOO'' = Some ''%%FOO%%''"
    using C5_single_pass [where n = "''FOO''" and pre = "[]" and post = "[]"
        and ks = "[''FOO'']" and k = "''FOO''" and m = "[''FOO'' \<mapsto> ''%%FOO%%'']"]
    by simp
  from a b c show ?thesis by blast
qed

lemma self_reference_example:
  "ReplaceInterpolations [''FOO''] [''FOO'' \<mapsto> ''%%FOO%%''] ''FOO'' = Some ''%%FOO%%''"
  by (simp add: replaced_def matchAt_def lookupVar_def Trim_def)

subsection \<open>Merging\<close>

text \<open>
  C3. Merging a batch into a namespace never changes the value of a key that is
  already there; in particular every key of the namespace seeded from the OS
  environment keeps its value when the shared-scope and then the app-scope parameters
  are merged, as \<^verbatim>\<open>main\<close> does in one call on the two batches appended.
\<close>

theorem C3_merge_keeps_present_keys:
  "(m k = Some v \<longrightarrow> AddParams B m k = Some v) \<and>
   (getOSEnv environ = Some pm \<longrightarrow> pm k = Some v \<longrightarrow>
      AddParams (sharedParams @ appParams) pm k = Some v)"
  by (simp add: AddParams_keeps)

theorem C3_merge_keeps_present_keys_witness:
  "AddParams [\<lparr>Name = ''/prod/FOO'', Value = ''remote''\<rparr>] [''FOO'' \<mapsto> ''local''] ''FOO'' = Some ''local'' \<and>
   getOSEnv [''FOO=local''] = Some [''FOO'' \<mapsto> ''local''] \<and>
   AddParams ([\<lparr>Name = ''/prod/FOO'', Value = ''remote''\<rparr>] @ [\<lparr>Name = ''/prod/app/FOO'', Value = ''app''\<rparr>])
     [''FOO'' \<mapsto> ''local''] ''FOO'' = Some ''local''"
  using C3_merge_keeps_present_keys [of "[''FOO'' \<mapsto> ''local'']" "''FOO''" "''local''"
      "[\<lparr>Name = ''/prod/FOO'', Value = ''remote''\<rparr>]" "[''FOO=local'']" "[''FOO'' \<mapsto> ''local'']"
      "[\<lparr>Name = ''/prod/FOO'', Value = ''remote''\<rparr>]" "[\<lparr>Name = ''/prod/app/FOO'', Value = ''app''\<rparr>]"]
  by (simp add: getOSEnv_def SplitN2_def)

text \<open>
  C7. Within one batch the first parameter with a given bare name wins: if the
  namespace does not have the name and \<open>p\<close> is the first parameter of the batch whose
  last path segment is that name, the name maps to the value of \<open>p\<close> after the merge,
  whatever follows \<open>p\<close> in the batch. \<^const>\<open>AddParams\<close> has no error to return.
\<close>

theorem C7_first_parameter_wins:
  assumes "m n = None" and "B = xs @ p # ys"
    and "\<forall>q \<in> set xs. bareName q \<noteq> n" and "bareName p = n"
  shows "AddParams B m n = Some (Value p)"
proof -
  have "find (\<lambda>q. bareName q = n) B = Some p"
    using assms(2,3,4) by (induction xs arbitrary: B) auto
  with assms(1) show ?thesis by (rule AddParams_first)
qed

theorem C7_first_parameter_wins_witness:
  "AddParams [\<lparr>Name = ''/prod/a/KEY'', Value = ''first''\<rparr>, \<lparr>Name = ''/prod/b/KEY'', Value = ''second''\<rparr>]
     Map.empty ''KEY'' = Some ''first''"
  using C7_first_parameter_wins [of Map.empty "''KEY''"
      "[\<lparr>Name = ''/prod/a/KEY'', Value = ''first''\<rparr>, \<lparr>Name = ''/prod/b/KEY'', Value = ''second''\<rparr>]"
      "[]" "\<lparr>Name = ''/prod/a/KEY'', Value = ''first''\<rparr>" "[\<lparr>Name = ''/prod/b/KEY'', Value = ''second''\<rparr>]"]
  by (simp add: bareName_def)

text \<open>
  C10. The claim: when no value of the environment has a match of the pattern and no
  fetched parameter has the name of an entry, the flattened list is the original list
  of entries up to order. The first half holds: seeding cuts an entry at its first
  \<^verbatim>\<open>=\<close> only, so a value with \<^verbatim>\<open>=\<close> in it is stored whole. The second half
  fails under the claim's own condition as soon as something is fetched: with the
  environment \<^verbatim>\<open>A=1\<close> and the fetched parameter \<^verbatim>\<open>/prod/B\<close> of value \<^verbatim>\<open>2\<close>
  the flattened list is \<^verbatim>\<open>A=1\<close>, \<^verbatim>\<open>B=2\<close>.
\<close>

theorem C10_counterexample_fetched_entry_is_added:
  "getOSEnv [''A=1''] = Some [''A'' \<mapsto> ''1''] \<and>
   \<not> hasMatch ''1'' \<and>
   bareName \<lparr>Name = ''/prod/B'', Value = ''2''\<rparr> \<noteq> ''A'' \<and>
   rangeOrder (AddParams [\<lparr>Name = ''/prod/B'', Value = ''2''\<rparr>] [''A'' \<mapsto> ''1'']) [''A'', ''B''] \<and>
   StringArray [''A'', ''B'']
     (ReplaceInterpolations [''A'', ''B'']
        (AddParams [\<lparr>Name = ''/prod/B'', Value = ''2''\<rparr>] [''A'' \<mapsto> ''1''])) =
     [''A=1'', ''B=2''] \<and>
   mset [''A=1'', ''B=2''] \<noteq> mset [''A=1'']"
  by (auto simp: getOSEnv_def SplitN2_def matchAt_def bareName_def rangeOrder_def
        replaced_def lookupVar_def Trim_def)

text \<open>
  C10, as amended. For an environment list of entries \<^verbatim>\<open>NAME=VALUE\<close> whose names
  have no \<^verbatim>\<open>=\<close> and are pairwise different (\<^verbatim>\<open>os.Environ()\<close> lists a name
  once), the seeded namespace maps every name to its whole value, further \<^verbatim>\<open>=\<close>
  included. If moreover no value has a match of the pattern, then whatever batch is
  merged and in whatever order the two ranges run, the flattened list has every
  original entry, unchanged; and it is the original list up to order exactly when the
  batch brings no new name, in particular when nothing is fetched: seeding and then
  flattening is a round trip.
\<close>

theorem C10_seed_flatten_round_trip:
  assumes "\<forall>nv \<in> set pairs. CHR ''='' \<notin> set (fst nv) \<and> \<not> hasMatch (snd nv)"
    and "distinct (map fst pairs)"
  shows "getOSEnv (map entry pairs) = Some (map_of pairs) \<and>
         (\<forall>ps ro so. rangeOrder (AddParams ps (map_of pairs)) so \<longrightarrow>
            mset (map entry pairs) \<subseteq>#
              mset (StringArray so (ReplaceInterpolations ro (AddParams ps (map_of pairs)))) \<and>
            ((mset (StringArray so (ReplaceInterpolations ro (AddParams ps (map_of pairs)))) =
                mset (map entry pairs)) =
             (bareName ` set ps \<subseteq> fst ` set pairs)))"
proof (intro conjI allI impI)
  from assms have "seedEnv (map entry pairs) Map.empty = Some (Map.empty ++ map_of pairs)"
    by (intro seedEnv_entries) auto
  then show "getOSEnv (map entry pairs) = Some (map_of pairs)" by (simp add: getOSEnv_def)
next
  fix ps ro so
  let ?F = "ReplaceInterpolations ro (AddParams ps (map_of pairs))"
  assume "rangeOrder (AddParams ps (map_of pairs)) so"
  then have so: "rangeOrder ?F so" by (simp add: rangeOrder_def RI_dom)
  have F: "\<forall>nv \<in> set pairs. ?F (fst nv) = Some (snd nv)"
  proof
    fix nv assume nv: "nv \<in> set pairs"
    with assms(2) have "map_of pairs (fst nv) = Some (snd nv)" by simp
    then have "AddParams ps (map_of pairs) (fst nv) = Some (snd nv)" by (rule AddParams_keeps)
    moreover from nv assms(1) have "\<not> hasMatch (snd nv)" by auto
    ultimately show "?F (fst nv) = Some (snd nv)" by (rule RI_keeps_plain)
  qed
  from assms(2) F so show "mset (map entry pairs) \<subseteq># mset (StringArray so ?F)"
    by (rule flatten_contains(1))
  have dom: "dom ?F = fst ` set pairs \<union> bareName ` set ps"
    by (simp add: RI_dom AddParams_dom dom_map_of_conv_image_fst)
  show "(mset (StringArray so ?F) = mset (map entry pairs)) =
        (bareName ` set ps \<subseteq> fst ` set pairs)"
  proof
    assume "bareName ` set ps \<subseteq> fst ` set pairs"
    with dom have "dom ?F = fst ` set pairs" by auto
    with assms(2) F so show "mset (StringArray so ?F) = mset (map entry pairs)"
      by (rule flatten_contains(2))
  next
    assume "mset (StringArray so ?F) = mset (map entry pairs)"
    then have "size (mset (StringArray so ?F)) = size (mset (map entry pairs))" by simp
    then have "length (StringArray so ?F) = length pairs" by simp
    with flatten_size [OF so] have "card (dom ?F) = length pairs" by simp
    moreover have "length pairs = card (fst ` set pairs)"
      using assms(2) by (metis distinct_card length_map set_map)
    ultimately have c: "card (fst ` set pairs \<union> bareName ` set ps) = card (fst ` set pairs)"
      using dom by simp
    have "fst ` set pairs \<union> bareName ` set ps = fst ` set pairs"
      by (rule sym, rule card_seteq) (use c in auto)
    then show "bareName ` set ps \<subseteq> fst ` set pairs" by auto
  qed
qed

theorem C10_seed_flatten_round_trip_witness:
  "getOSEnv [''PATH=/bin'', ''OPTS=a=b''] = Some [''PATH'' \<mapsto> ''/bin'', ''OPTS'' \<mapsto> ''a=b''] \<and>
   mset (StringArray [''OPTS'', ''PATH'']
          (ReplaceInterpolations [''PATH'', ''OPTS'']
             (AddParams [] [''PATH'' \<mapsto> ''/bin'', ''OPTS'' \<mapsto> ''a=b'']))) =
     mset [''PATH=/bin'', ''OPTS=a=b''] \<and>
   mset (StringArray [''OPTS'', ''PATH'']
          (ReplaceInterpolations [''PATH'', ''OPTS'']
             (AddParams [\<lparr>Name = ''/prod/PATH'', Value = ''/remote''\<rparr>]
                [''PATH'' \<mapsto> ''/bin'', ''OPTS'' \<mapsto> ''a=b'']))) =
     mset [''PATH=/bin'', ''OPTS=a=b''] \<and>
   mset [''PATH=/bin'', ''OPTS=a=b''] \<subseteq>#
     mset (StringArray [''B'', ''OPTS'', ''PATH'']
            (ReplaceInterpolations [''PATH'', ''B'', ''OPTS'']
               (AddParams [\<lparr>Name = ''/prod/B'', Value = ''2''\<rparr>]
                  [''PATH'' \<mapsto> ''/bin'', ''OPTS'' \<mapsto> ''a=b'']))) \<and>
   mset (StringArray [''B'', ''OPTS'', ''PATH'']
          (ReplaceInterpolations [''PATH'', ''B'', ''OPTS'']
             (AddParams [\<lparr>Name = ''/prod/B'', Value = ''2''\<rparr>]
                [''PATH'' \<mapsto> ''/bin'', ''OPTS'' \<mapsto> ''a=b'']))) \<noteq>
     mset [''PATH=/bin'', ''OPTS=a=b'']"
proof -
  let ?pairs = "[(''PATH'', ''/bin''), (''OPTS'', ''a=b'')]"
  let ?M = "[''PATH'' \<mapsto> ''/bin'', ''OPTS'' \<mapsto> ''a=b'']"
  let ?p = "\<lparr>Name = ''/prod/PATH'', Value = ''/remote''\<rparr>"
  let ?q = "\<lparr>Name = ''/prod/B'', Value = ''2''\<rparr>"
  have h1: "\<forall>nv \<in> set ?pairs. CHR ''='' \<notin> set (fst nv) \<and> \<not> hasMatch (snd nv)"
    by (simp add: matchAt_def)
  have h2: "distinct (map fst ?pairs)" by simp
  have m: "map_of ?pairs = ?M" by auto
  have e: "map entry ?pairs = [''PATH=/bin'', ''OPTS=a=b'']" by (simp add: entry_def)
  have r0: "rangeOrder (AddParams [] (map_of ?pairs)) [''OPTS'', ''PATH'']"
    by (auto simp: rangeOrder_def)
  have r1: "rangeOrder (AddParams [?p] (map_of ?pairs)) [''OPTS'', ''PATH'']"
    by (auto simp: rangeOrder_def bareName_def)
  have r2: "rangeOrder (AddParams [?q] (map_of ?pairs)) [''B'', ''OPTS'', ''PATH'']"
    by (auto simp: rangeOrder_def bareName_def split: if_splits)
  note T = C10_seed_flatten_round_trip [OF h1 h2]
  have w0: "getOSEnv (map entry ?pairs) = Some (map_of ?pairs)"
    using T by (rule conjunct1)
  have w1: "mset (StringArray [''OPTS'', ''PATH'']
          (ReplaceInterpolations [''PATH'', ''OPTS''] (AddParams [] (map_of ?pairs)))) =
         mset (map entry ?pairs)"
    using T [THEN conjunct2, rule_format,
        where ps = "[]" and so = "[''OPTS'', ''PATH'']" and ro = "[''PATH'', ''OPTS'']"] r0
    by simp
  have w2: "mset (StringArray [''OPTS'', ''PATH'']
          (ReplaceInterpolations [''PATH'', ''OPTS''] (AddParams [?p] (map_of ?pairs)))) =
         mset (map entry ?pairs)"
    using T [THEN conjunct2, rule_format,
        where ps = "[?p]" and so = "[''OPTS'', ''PATH'']" and ro = "[''PATH'', ''OPTS'']"] r1
    by (simp add: bareName_def)
  have w3: "mset (map entry ?pairs) \<subseteq>#
         mset (StringArray [''B'', ''OPTS'', ''PATH'']
          (ReplaceInterpolations [''PATH'', ''B'', ''OPTS''] (AddParams [?q] (map_of ?pairs)))) \<and>
         mset (StringArray [''B'', ''OPTS'', ''PATH'']
          (ReplaceInterpolations [''PATH'', ''B'', ''OPTS''] (AddParams [?q] (map_of ?pairs)))) \<noteq>
         mset (map entry ?pairs)"
    using T [THEN conjunct2, rule_format,
        where ps = "[?q]" and so = "[''B'', ''OPTS'', ''PATH'']"
          and ro = "[''PATH'', ''B'', ''OPTS'']"] r2
    by (simp add: bareName_def)
  from w0 w1 w2 w3 show ?thesis unfolding m e by blast
qed

subsection \<open>The fetcher\<close>

text \<open>
  C6. Whenever the store's answers from the first request on form a finite sequence
  of pages \<open>rs\<close> (fewer than \<open>2^64\<close>, the range of the counter \<^verbatim>\<open>itr\<close>), of which
  only the last carries no cursor, the fetcher returns, without an error, the
  parameters of all the pages in the order of arrival, having made one request per
  page, each after a sleep of 100 milliseconds. For the store that serves 25 entries in
  pages of the size asked for, which is 10, it returns the 25 entries after three
  requests, a sleep before each.
\<close>

theorem C6_pagination:
  "(answers c p None rs \<longrightarrow> failure rs = None \<longrightarrow> length rs < 2 ^ 64 \<longrightarrow>
      getParameters \<lparr>Client = c, Path = p, NextToken = None, FetchedParams = []\<rparr> 0 [] =
        Some ((fetched rs, None), requestsOf p None rs) \<and>
      length (requests (requestsOf p None rs)) = length rs) \<and>
   (length es = 25 \<longrightarrow>
      getParameters \<lparr>Client = pagedStore es, Path = p, NextToken = None, FetchedParams = []\<rparr> 0 [] =
        Some ((es, None),
              [Sleep 100, Request (byPath p None),
               Sleep 100, Request (byPath p (Some (replicate 10 (CHR ''.'')))),
               Sleep 100, Request (byPath p (Some (replicate 20 (CHR ''.''))))]))"
proof (intro conjI impI)
  assume a: "answers c p None rs" "failure rs = None" "length rs < 2 ^ 64"
  from getParameters_succeeds [OF a, of "[]" "[]"]
  show "getParameters \<lparr>Client = c, Path = p, NextToken = None, FetchedParams = []\<rparr> 0 [] =
        Some ((fetched rs, None), requestsOf p None rs)" by simp
next
  assume "answers c p None rs"
  then show "length (requests (requestsOf p None rs)) = length rs"
    by (rule requests_answers)
next
  assume l: "length es = 25"
  let ?t10 = "replicate 10 (CHR ''.'')" and ?t20 = "replicate 20 (CHR ''.'')"
  let ?rs = "[Inr (take 10 es, Some ?t10), Inr (take 10 (drop 10 es), Some ?t20),
              Inr (drop 20 es, None)] :: response list"
  have a: "answers (pagedStore es) p None ?rs"
    using l by (simp add: pagedStore_def byPath_def)
  have "take 10 es @ take 10 (drop 10 es) @ drop 20 es = es"
    by (metis append_take_drop_id drop_drop numeral_Bit0 append.assoc take_add)
  then have f: "fetched ?rs = es" by simp
  from getParameters_succeeds [OF a, of "[]" "[]"] f
  show "getParameters \<lparr>Client = pagedStore es, Path = p, NextToken = None, FetchedParams = []\<rparr> 0 [] =
        Some ((es, None),
              [Sleep 100, Request (byPath p None),
               Sleep 100, Request (byPath p (Some ?t10)),
               Sleep 100, Request (byPath p (Some ?t20))])" by simp
qed

theorem C6_pagination_witness:
  "answers (pagedStore (sampleEntries 12)) ''/prod/'' None
     [Inr (take 10 (sampleEntries 12), Some (replicate 10 (CHR ''.''))),
      Inr (drop 10 (sampleEntries 12), None)] \<and>
   getParameters \<lparr>Client = pagedStore (sampleEntries 12), Path = ''/prod/'', NextToken = None,
                  FetchedParams = []\<rparr> 0 [] =
     Some ((sampleEntries 12, None),
           [Sleep 100, Request (byPath ''/prod/'' None),
            Sleep 100, Request (byPath ''/prod/'' (Some (replicate 10 (CHR ''.''))))]) \<and>
   length (sampleEntries 25) = 25 \<and>
   getParameters \<lparr>Client = pagedStore (sampleEntries 25), Path = ''/prod/'', NextToken = None,
                  FetchedParams = []\<rparr> 0 [] =
     Some ((sampleEntries 25, None),
           [Sleep 100, Request (byPath ''/prod/'' None),
            Sleep 100, Request (byPath ''/prod/'' (Some (replicate 10 (CHR ''.'')))),
            Sleep 100, Request (byPath ''/prod/'' (Some (replicate 20 (CHR ''.''))))])"
  using C6_pagination [of "pagedStore (sampleEntries 12)" "''/prod/''"
      "[Inr (take 10 (sampleEntries 12), Some (replicate 10 (CHR ''.''))),
        Inr (drop 10 (sampleEntries 12), None)]" "sampleEntries 25"]
  by (simp add: length_sampleEntries pagedStore_def byPath_def)

text \<open>
  C9. If the store's answers to the requests for a path end in an error \<open>err\<close>, the
  fetcher returns that error with no parameters, whatever it had fetched and
  collected before, and has made exactly the requests that were answered: the failed
  one is not repeated. In \<^const>\<open>main\<close> such an answer for the shared scope ends the
  run with the log line that names the shared params and status 1, before any request
  for the app scope; such an answer for the app scope, after a shared scope that
  was fetched or skipped, ends it with the log line that names the app params and
  status 1. In both cases nothing follows: no merge is used, no child is started.
\<close>

theorem C9_fetch_error_is_fatal:
  assumes "getOSEnv environ = Some pm"
    and "answers svc path None rs" and "failure rs = Some err"
  shows "getParameters \<lparr>Client = svc, Path = path, NextToken = None, FetchedParams = acc\<rparr> 0 tr =
           Some (([], Some err), tr @ requestsOf path None rs) \<and>
         (appEnvOf environ \<noteq> [] \<longrightarrow> path = ''/'' @ appEnvOf environ @ ''/'' \<longrightarrow>
            main environ args (Inr svc) child ro so =
              Some (requestsOf path None rs @
                      [Logln (''Error fetching shared params:  '' @ message err)], Exit 1)) \<and>
         (Getenv environ ''APP_NAME'' \<noteq> [] \<longrightarrow>
          path = ''/'' @ appEnvOf environ @ ''/'' @ Getenv environ ''APP_NAME'' @ ''/'' \<longrightarrow>
          (appEnvOf environ = [] \<and> rsS = [] \<or>
           appEnvOf environ \<noteq> [] \<and> answers svc (''/'' @ appEnvOf environ @ ''/'') None rsS \<and>
             failure rsS = None \<and> length rsS < 2 ^ 64) \<longrightarrow>
            main environ args (Inr svc) child ro so =
              Some (requestsOf (''/'' @ appEnvOf environ @ ''/'') None rsS @
                    requestsOf path None rs @
                      [Logln (''Error fetching app params:  '' @ message err)], Exit 1))"
proof (intro conjI impI)
  show "getParameters \<lparr>Client = svc, Path = path, NextToken = None, FetchedParams = acc\<rparr> 0 tr =
           Some (([], Some err), tr @ requestsOf path None rs)"
    using assms(2,3) by (rule getParameters_fails)
next
  assume e: "appEnvOf environ \<noteq> []" and p: "path = ''/'' @ appEnvOf environ @ ''/''"
  from assms(2) p have "answers svc (''/'' @ appEnvOf environ @ ''/'') None rs" by simp
  from fetchShared_fails [OF e this assms(3), of Logln "Getenv environ ''APP_NAME''"] assms(1) p
  show "main environ args (Inr svc) child ro so =
          Some (requestsOf path None rs @
                  [Logln (''Error fetching shared params:  '' @ message err)], Exit 1)"
    by (simp add: main_def)
next
  assume a: "Getenv environ ''APP_NAME'' \<noteq> []"
    and p: "path = ''/'' @ appEnvOf environ @ ''/'' @ Getenv environ ''APP_NAME'' @ ''/''"
    and s: "appEnvOf environ = [] \<and> rsS = [] \<or>
            appEnvOf environ \<noteq> [] \<and> answers svc (''/'' @ appEnvOf environ @ ''/'') None rsS \<and>
              failure rsS = None \<and> length rsS < 2 ^ 64"
  from assms(2) p have
    "answers svc (''/'' @ appEnvOf environ @ ''/'' @ Getenv environ ''APP_NAME'' @ ''/'') None rs"
    by simp
  from fetchApp_fails [OF a this assms(3), of Logln]
       fetchShared_then_app [OF s, of Logln "Getenv environ ''APP_NAME''"] assms(1) p
  show "main environ args (Inr svc) child ro so =
          Some (requestsOf (''/'' @ appEnvOf environ @ ''/'') None rsS @
                requestsOf path None rs @
                  [Logln (''Error fetching app params:  '' @ message err)], Exit 1)"
    by (simp add: main_def)
qed

theorem C9_fetch_error_is_fatal_witness:
  "getParameters \<lparr>Client = flakyStore, Path = ''/prod/'', NextToken = None, FetchedParams = []\<rparr> 0 [] =
     Some (([], Some (Error ''throttled'')),
           [Sleep 100, Request (byPath ''/prod/'' None),
            Sleep 100, Request (byPath ''/prod/'' (Some ''next''))]) \<and>
   main [''APP_ENV=prod''] [''true''] (Inr flakyStore) quietChild [] [] =
     Some ([Sleep 100, Request (byPath ''/prod/'' None),
            Sleep 100, Request (byPath ''/prod/'' (Some ''next'')),
            Logln ''Error fetching shared params:  throttled''], Exit 1) \<and>
   main [''APP_ENV=prod'', ''APP_NAME=web''] [''true''] (Inr (failingAt ''/prod/web/'')) quietChild [] [] =
     Some ([Sleep 100, Request (byPath ''/prod/'' None),
            Sleep 100, Request (byPath ''/prod/web/'' None),
            Logln ''Error fetching app params:  denied''], Exit 1)"
  using C9_fetch_error_is_fatal [OF seed_prod, of flakyStore "''/prod/''"
      "[Inr ([\<lparr>Name = ''/prod/A'', Value = ''1''\<rparr>], Some ''next''), Inl (Error ''throttled'')]"
      "Error ''throttled''" "[]" "[]" "[''true'']" quietChild "[]" "[]" "[]"]
    C9_fetch_error_is_fatal [OF seed_prod_web, of "failingAt ''/prod/web/''" "''/prod/web/''"
      "[Inl (Error ''denied'')]" "Error ''denied''" "[]" "[]" "[''true'']" quietChild "[]" "[]"
      "[Inr ([\<lparr>Name = ''/prod/A'', Value = ''1''\<rparr>], None)]"]
  by (simp add: flakyStore_def failingAt_def byPath_def appEnvOf_def SplitN2_def)

subsection \<open>The driver\<close>

text \<open>
  C2. The claim: with no argument the process exits with a non-zero status and a
  usage diagnostic before any fetch. On the code the arguments are looked at only
  after the fetch stage, and the fuller \<^const>\<open>main\<close> exits with status 0: here the
  environment names \<^verbatim>\<open>prod\<close>, the store is asked for \<^verbatim>\<open>/prod/\<close>, then the usage
  text is printed and the status is 0.
\<close>

theorem C2_counterexample_no_command_exits_zero_after_fetch:
  "main [''APP_ENV=prod''] [] (Inr emptyStore) quietChild [] [] =
     Some (Sleep 100 # Request (byPath ''/prod/'' None) # map Println usage, Exit 0)"
  by (simp add: main_def getOSEnv_def SplitN2_def appEnvOf_def fetchShared_def fetchApp_def
        getParameters.simps emptyStore_def byPath_def)

text \<open>
  C2, as amended. With no argument no child process is started, and the run ends
  after the fetch stage. If the session cannot be made, or an entry of the
  environment has no \<^verbatim>\<open>=\<close>, the run panics before anything is asked or printed.
  Otherwise the store is asked first, for the shared scope when an environment name
  is configured and then for the app scope when an application name is, one request
  per answer, and not at all exactly when neither is configured. When the scopes are
  fetched, the fuller \<^const>\<open>main\<close> then prints the usage text and exits with status
  0, and \<^const>\<open>main_required\<close> logs that a command is required and exits with
  status 1. When the exchange for a scope ends in an error, either run ends after
  the failed request with the log line that names the scope, and status 1.
\<close>

theorem C2_no_command_stops_after_fetch:
  "main environ [] (Inl e) child ro so = Some ([], Panic) \<and>
   main_required environ [] (Inl e) child ro so = Some ([], Panic) \<and>
   (getOSEnv environ = None \<longrightarrow>
      main environ [] (Inr svc) child ro so = Some ([], Panic) \<and>
      main_required environ [] (Inr svc) child ro so = Some ([], Panic)) \<and>
   (getOSEnv environ \<noteq> None \<longrightarrow>
    fetchedScope svc (appEnvOf environ \<noteq> []) (sharedPath environ) rsS \<longrightarrow>
    fetchedScope svc (Getenv environ ''APP_NAME'' \<noteq> []) (appPath environ) rsA \<longrightarrow>
      main environ [] (Inr svc) child ro so =
        Some (requestsOf (sharedPath environ) None rsS @
              requestsOf (appPath environ) None rsA @ map Println usage, Exit 0) \<and>
      main_required environ [] (Inr svc) child ro so =
        Some (requestsOf (sharedPath environ) None rsS @
              requestsOf (appPath environ) None rsA @ [Logln ''ssm-loader requires a command to run''], Exit 1) \<and>
      list_all isFetch
        (requestsOf (sharedPath environ) None rsS @ requestsOf (appPath environ) None rsA) \<and>
      length (requests
        (requestsOf (sharedPath environ) None rsS @ requestsOf (appPath environ) None rsA)) =
        length rsS + length rsA \<and>
      ((rsS = [] \<and> rsA = []) =
         (appEnvOf environ = [] \<and> Getenv environ ''APP_NAME'' = []))) \<and>
   (getOSEnv environ \<noteq> None \<longrightarrow> appEnvOf environ \<noteq> [] \<longrightarrow>
    failedScope svc (sharedPath environ) rsF err \<longrightarrow>
      main environ [] (Inr svc) child ro so =
        Some (requestsOf (sharedPath environ) None rsF @
                [Logln (''Error fetching shared params:  '' @ message err)], Exit 1) \<and>
      main_required environ [] (Inr svc) child ro so =
        Some (requestsOf (sharedPath environ) None rsF @
                [Logln (''Error fetching shared params:  '' @ message err)], Exit 1)) \<and>
   (getOSEnv environ \<noteq> None \<longrightarrow>
    fetchedScope svc (appEnvOf environ \<noteq> []) (sharedPath environ) rsS \<longrightarrow>
    Getenv environ ''APP_NAME'' \<noteq> [] \<longrightarrow>
    failedScope svc (appPath environ) rsF err \<longrightarrow>
      main environ [] (Inr svc) child ro so =
        Some (requestsOf (sharedPath environ) None rsS @
              requestsOf (appPath environ) None rsF @
                [Logln (''Error fetching app params:  '' @ message err)], Exit 1) \<and>
      main_required environ [] (Inr svc) child ro so =
        Some (requestsOf (sharedPath environ) None rsS @
              requestsOf (appPath environ) None rsF @
                [Logln (''Error fetching app params:  '' @ message err)], Exit 1))"
proof -
  have stop: "[] = [] \<or> contains [] ''-h'' \<or> contains [] ''--help''" by simp
  have cnt: "list_all isFetch
        (requestsOf (sharedPath environ) None rsS @ requestsOf (appPath environ) None rsA) \<and>
      length (requests
        (requestsOf (sharedPath environ) None rsS @ requestsOf (appPath environ) None rsA)) =
        length rsS + length rsA \<and>
      ((rsS = [] \<and> rsA = []) =
         (appEnvOf environ = [] \<and> Getenv environ ''APP_NAME'' = []))"
    if "fetchedScope svc (appEnvOf environ \<noteq> []) (sharedPath environ) rsS"
      and "fetchedScope svc (Getenv environ ''APP_NAME'' \<noteq> []) (appPath environ) rsA"
    using fetchedScope_requests [OF that(1)] fetchedScope_requests [OF that(2)]
      fetchedScope_empty [OF that(1)] fetchedScope_empty [OF that(2)]
    by (simp add: requests_append requestsOf_isFetch)
  note M = main_stops [OF stop, of environ] and R = main_required_stops [of environ]
  show ?thesis
    using cnt by (intro conjI impI) (simp_all add: M R)
qed

theorem C2_no_command_stops_after_fetch_witness:
  "main [''APP_ENV=prod'', ''APP_NAME=web''] [] (Inl (Error ''no credentials'')) quietChild [] [] = Some ([], Panic) \<and>
   main [''BROKEN''] [] (Inr emptyStore) quietChild [] [] = Some ([], Panic) \<and>
   main [''APP_ENV=prod'', ''APP_NAME=web''] [] (Inr emptyStore) quietChild [] [] =
     Some ([Sleep 100, Request (byPath ''/prod/'' None),
            Sleep 100, Request (byPath ''/prod/web/'' None)] @ map Println usage, Exit 0) \<and>
   main [''HOME=/root''] [] (Inr emptyStore) quietChild [] [] = Some (map Println usage, Exit 0) \<and>
   main [''APP_ENV=prod''] [] (Inr flakyStore) quietChild [] [] =
     Some ([Sleep 100, Request (byPath ''/prod/'' None),
            Sleep 100, Request (byPath ''/prod/'' (Some ''next'')),
            Logln ''Error fetching shared params:  throttled''], Exit 1) \<and>
   main [''APP_ENV=prod'', ''APP_NAME=web''] [] (Inr (failingAt ''/prod/web/'')) quietChild [] [] =
     Some ([Sleep 100, Request (byPath ''/prod/'' None),
            Sleep 100, Request (byPath ''/prod/web/'' None),
            Logln ''Error fetching app params:  denied''], Exit 1) \<and>
   main_required [''APP_ENV=prod'', ''APP_NAME=web''] [] (Inl (Error ''no credentials'')) quietChild [] [] = Some ([], Panic) \<and>
   main_required [''BROKEN''] [] (Inr emptyStore) quietChild [] [] = Some ([], Panic) \<and>
   main_required [''APP_ENV=prod'', ''APP_NAME=web''] [] (Inr emptyStore) quietChild [] [] =
     Some ([Sleep 100, Request (byPath ''/prod/'' None),
            Sleep 100, Request (byPath ''/prod/web/'' None)] @ [Logln ''ssm-loader requires a command to run''], Exit 1) \<and>
   main_required [''HOME=/root''] [] (Inr emptyStore) quietChild [] [] = Some ([Logln ''ssm-loader requires a command to run''], Exit 1) \<and>
   main_required [''APP_ENV=prod''] [] (Inr flakyStore) quietChild [] [] =
     Some ([Sleep 100, Request (byPath ''/prod/'' None),
            Sleep 100, Request (byPath ''/prod/'' (Some ''next'')),
            Logln ''Error fetching shared params:  throttled''], Exit 1) \<and>
   main_required [''APP_ENV=prod'', ''APP_NAME=web''] [] (Inr (failingAt ''/prod/web/'')) quietChild [] [] =
     Some ([Sleep 100, Request (byPath ''/prod/'' None),
            Sleep 100, Request (byPath ''/prod/web/'' None),
            Logln ''Error fetching app params:  denied''], Exit 1)"
proof -
  have w0: "main [''APP_ENV=prod'', ''APP_NAME=web''] [] (Inl (Error ''no credentials'')) quietChild [] [] = Some ([], Panic)"
    using C2_no_command_stops_after_fetch [where environ = "[''APP_ENV=prod'', ''APP_NAME=web'']" and svc = "emptyStore" and rsS = "[]" and rsA = "[]" and rsF = "[]" and err = "Error []" and e = "Error ''no credentials''" and child = quietChild and ro = "[]" and so = "[]"]
    by (simp add: getOSEnv_def SplitN2_def appEnvOf_def sharedPath_def appPath_def fetchedScope_def failedScope_def emptyStore_def flakyStore_def failingAt_def byPath_def)
  have w1: "main [''BROKEN''] [] (Inr emptyStore) quietChild [] [] = Some ([], Panic)"
    using C2_no_command_stops_after_fetch [where environ = "[''BROKEN'']" and svc = "emptyStore" and rsS = "[]" and rsA = "[]" and rsF = "[]" and err = "Error []" and e = "Error ''no credentials''" and child = quietChild and ro = "[]" and so = "[]"]
    by (simp add: getOSEnv_def SplitN2_def appEnvOf_def sharedPath_def appPath_def fetchedScope_def failedScope_def emptyStore_def flakyStore_def failingAt_def byPath_def)
  have w2: "main [''APP_ENV=prod'', ''APP_NAME=web''] [] (Inr emptyStore) quietChild [] [] =
       Some ([Sleep 100, Request (byPath ''/prod/'' None),
              Sleep 100, Request (byPath ''/prod/web/'' None)] @ map Println usage, Exit 0)"
    using C2_no_command_stops_after_fetch [where environ = "[''APP_ENV=prod'', ''APP_NAME=web'']" and svc = "emptyStore" and rsS = "[Inr ([], None)]" and rsA = "[Inr ([], None)]" and rsF = "[]" and err = "Error []" and e = "Error ''no credentials''" and child = quietChild and ro = "[]" and so = "[]"]
    by (simp add: getOSEnv_def SplitN2_def appEnvOf_def sharedPath_def appPath_def fetchedScope_def failedScope_def emptyStore_def flakyStore_def failingAt_def byPath_def)
  have w3: "main [''HOME=/root''] [] (Inr emptyStore) quietChild [] [] = Some (map Println usage, Exit 0)"
    using C2_no_command_stops_after_fetch [where environ = "[''HOME=/root'']" and svc = "emptyStore" and rsS = "[]" and rsA = "[]" and rsF = "[]" and err = "Error []" and e = "Error ''no credentials''" and child = quietChild and ro = "[]" and so = "[]"]
    by (simp add: getOSEnv_def SplitN2_def appEnvOf_def sharedPath_def appPath_def fetchedScope_def failedScope_def emptyStore_def flakyStore_def failingAt_def byPath_def)
  have w4: "main [''APP_ENV=prod''] [] (Inr flakyStore) quietChild [] [] =
       Some ([Sleep 100, Request (byPath ''/prod/'' None),
              Sleep 100, Request (byPath ''/prod/'' (Some ''next'')),
              Logln ''Error fetching shared params:  throttled''], Exit 1)"
    using C2_no_command_stops_after_fetch [where environ = "[''APP_ENV=prod'']" and svc = "flakyStore" and rsS = "[]" and rsA = "[]" and rsF = "[Inr ([\<lparr>Name = ''/prod/A'', Value = ''1''\<rparr>], Some ''next''), Inl (Error ''throttled'')]" and err = "Error ''throttled''" and e = "Error ''no credentials''" and child = quietChild and ro = "[]" and so = "[]"]
    by (simp add: getOSEnv_def SplitN2_def appEnvOf_def sharedPath_def appPath_def fetchedScope_def failedScope_def emptyStore_def flakyStore_def failingAt_def byPath_def)
  have w5: "main [''APP_ENV=prod'', ''APP_NAME=web''] [] (Inr (failingAt ''/prod/web/'')) quietChild [] [] =
       Some ([Sleep 100, Request (byPath ''/prod/'' None),
              Sleep 100, Request (byPath ''/prod/web/'' None),
              Logln ''Error fetching app params:  denied''], Exit 1)"
    using C2_no_command_stops_after_fetch [where environ = "[''APP_ENV=prod'', ''APP_NAME=web'']" and svc = "failingAt ''/prod/web/''" and rsS = "[Inr ([\<lparr>Name = ''/prod/A'', Value = ''1''\<rparr>], None)]" and rsA = "[]" and rsF = "[Inl (Error ''denied'')]" and err = "Error ''denied''" and e = "Error ''no credentials''" and child = quietChild and ro = "[]" and so = "[]"]
    by (simp add: getOSEnv_def SplitN2_def appEnvOf_def sharedPath_def appPath_def fetchedScope_def failedScope_def emptyStore_def flakyStore_def failingAt_def byPath_def)
  have w6: "main_required [''APP_ENV=prod'', ''APP_NAME=web''] [] (Inl (Error ''no credentials'')) quietChild [] [] = Some ([], Panic)"
    using C2_no_command_stops_after_fetch [where environ = "[''APP_ENV=prod'', ''APP_NAME=web'']" and svc = "emptyStore" and rsS = "[]" and rsA = "[]" and rsF = "[]" and err = "Error []" and e = "Error ''no credentials''" and child = quietChild and ro = "[]" and so = "[]"]
    by (simp add: getOSEnv_def SplitN2_def appEnvOf_def sharedPath_def appPath_def fetchedScope_def failedScope_def emptyStore_def flakyStore_def failingAt_def byPath_def)
  have w7: "main_required [''BROKEN''] [] (Inr emptyStore) quietChild [] [] = Some ([], Panic)"
    using C2_no_command_stops_after_fetch [where environ = "[''BROKEN'']" and svc = "emptyStore" and rsS = "[]" and rsA = "[]" and rsF = "[]" and err = "Error []" and e = "Error ''no credentials''" and child = quietChild and ro = "[]" and so = "[]"]
    by (simp add: getOSEnv_def SplitN2_def appEnvOf_def sharedPath_def appPath_def fetchedScope_def failedScope_def emptyStore_def flakyStore_def failingAt_def byPath_def)
  have w8: "main_required [''APP_ENV=prod'', ''APP_NAME=web''] [] (Inr emptyStore) quietChild [] [] =
       Some ([Sleep 100, Request (byPath ''/prod/'' None),
              Sleep 100, Request (byPath ''/prod/web/'' None)] @ [Logln ''ssm-loader requires a command to run''], Exit 1)"
    using C2_no_command_stops_after_fetch [where environ = "[''APP_ENV=prod'', ''APP_NAME=web'']" and svc = "emptyStore" and rsS = "[Inr ([], None)]" and rsA = "[Inr ([], None)]" and rsF = "[]" and err = "Error []" and e = "Error ''no credentials''" and child = quietChild and ro = "[]" and so = "[]"]
    by (simp add: getOSEnv_def SplitN2_def appEnvOf_def sharedPath_def appPath_def fetchedScope_def failedScope_def emptyStore_def flakyStore_def failingAt_def byPath_def)
  have w9: "main_required [''HOME=/root''] [] (Inr emptyStore) quietChild [] [] = Some ([Logln ''ssm-loader requires a command to run''], Exit 1)"
    using C2_no_command_stops_after_fetch [where environ = "[''HOME=/root'']" and svc = "emptyStore" and rsS = "[]" and rsA = "[]" and rsF = "[]" and err = "Error []" and e = "Error ''no credentials''" and child = quietChild and ro = "[]" and so = "[]"]
    by (simp add: getOSEnv_def SplitN2_def appEnvOf_def sharedPath_def appPath_def fetchedScope_def failedScope_def emptyStore_def flakyStore_def failingAt_def byPath_def)
  have w10: "main_required [''APP_ENV=prod''] [] (Inr flakyStore) quietChild [] [] =
       Some ([Sleep 100, Request (byPath ''/prod/'' None),
              Sleep 100, Request (byPath ''/prod/'' (Some ''next'')),
              Logln ''Error fetching shared params:  throttled''], Exit 1)"
    using C2_no_command_stops_after_fetch [where environ = "[''APP_ENV=prod'']" and svc = "flakyStore" and rsS = "[]" and rsA = "[]" and rsF = "[Inr ([\<lparr>Name = ''/prod/A'', Value = ''1''\<rparr>], Some ''next''), Inl (Error ''throttled'')]" and err = "Error ''throttled''" and e = "Error ''no credentials''" and child = quietChild and ro = "[]" and so = "[]"]
    by (simp add: getOSEnv_def SplitN2_def appEnvOf_def sharedPath_def appPath_def fetchedScope_def failedScope_def emptyStore_def flakyStore_def failingAt_def byPath_def)
  have w11: "main_required [''APP_ENV=prod'', ''APP_NAME=web''] [] (Inr (failingAt ''/prod/web/'')) quietChild [] [] =
       Some ([Sleep 100, Request (byPath ''/prod/'' None),
              Sleep 100, Request (byPath ''/prod/web/'' None),
              Logln ''Error fetching app params:  denied''], Exit 1)"
    using C2_no_command_stops_after_fetch [where environ = "[''APP_ENV=prod'', ''APP_NAME=web'']" and svc = "failingAt ''/prod/web/''" and rsS = "[Inr ([\<lparr>Name = ''/prod/A'', Value = ''1''\<rparr>], None)]" and rsA = "[]" and rsF = "[Inl (Error ''denied'')]" and err = "Error ''denied''" and e = "Error ''no credentials''" and child = quietChild and ro = "[]" and so = "[]"]
    by (simp add: getOSEnv_def SplitN2_def appEnvOf_def sharedPath_def appPath_def fetchedScope_def failedScope_def emptyStore_def flakyStore_def failingAt_def byPath_def)
  show ?thesis
    by (intro conjI) (rule w0 w1 w2 w3 w4 w5 w6 w7 w8 w9 w10 w11)+
qed

text \<open>
  C4. The claim: with \<^verbatim>\<open>-h\<close> or \<^verbatim>\<open>--help\<close> among the arguments the fuller
  \<^const>\<open>main\<close> prints the usage text and exits with status 0 without any fetch. On
  the code the fetch stage comes first: here the store is asked for \<^verbatim>\<open>/prod/\<close>
  before the usage text is printed.
\<close>

theorem C4_counterexample_help_fetches_first:
  "main [''APP_ENV=prod''] [''-h''] (Inr emptyStore) quietChild [] [] =
     Some (Sleep 100 # Request (byPath ''/prod/'' None) # map Println usage, Exit 0)"
  by (simp add: main_def getOSEnv_def SplitN2_def appEnvOf_def fetchShared_def fetchApp_def
        getParameters.simps emptyStore_def byPath_def)

text \<open>
  C4, as amended. With \<^verbatim>\<open>-h\<close> or \<^verbatim>\<open>--help\<close> among the arguments of the fuller
  \<^const>\<open>main\<close> no child process is started. If the session cannot be made, or an
  entry of the environment has no \<^verbatim>\<open>=\<close>, the run panics before anything is asked
  or printed. Otherwise the store is asked first, for the shared scope when an
  environment name is configured and then for the app scope when an application name
  is, one request per answer, and not at all exactly when neither is configured. When
  the scopes are fetched, the usage text is printed and the status is 0. When the
  exchange for a scope ends in an error, the run ends after the failed request with
  the log line that names the scope, and status 1, and prints no usage text.
\<close>

theorem C4_help_stops_after_fetch:
  assumes "contains args ''-h'' \<or> contains args ''--help''"
  shows "main environ args (Inl e) child ro so = Some ([], Panic) \<and>
     (getOSEnv environ = None \<longrightarrow>
        main environ args (Inr svc) child ro so = Some ([], Panic)) \<and>
     (getOSEnv environ \<noteq> None \<longrightarrow>
      fetchedScope svc (appEnvOf environ \<noteq> []) (sharedPath environ) rsS \<longrightarrow>
      fetchedScope svc (Getenv environ ''APP_NAME'' \<noteq> []) (appPath environ) rsA \<longrightarrow>
        main environ args (Inr svc) child ro so =
          Some (requestsOf (sharedPath environ) None rsS @
                requestsOf (appPath environ) None rsA @ map Println usage, Exit 0) \<and>
        list_all isFetch
          (requestsOf (sharedPath environ) None rsS @ requestsOf (appPath environ) None rsA) \<and>
        length (requests
          (requestsOf (sharedPath environ) None rsS @ requestsOf (appPath environ) None rsA)) =
          length rsS + length rsA \<and>
        ((rsS = [] \<and> rsA = []) =
           (appEnvOf environ = [] \<and> Getenv environ ''APP_NAME'' = []))) \<and>
     (getOSEnv environ \<noteq> None \<longrightarrow> appEnvOf environ \<noteq> [] \<longrightarrow>
      failedScope svc (sharedPath environ) rsF err \<longrightarrow>
        main environ args (Inr svc) child ro so =
          Some (requestsOf (sharedPath environ) None rsF @
                  [Logln (''Error fetching shared params:  '' @ message err)], Exit 1)) \<and>
     (getOSEnv environ \<noteq> None \<longrightarrow>
      fetchedScope svc (appEnvOf environ \<noteq> []) (sharedPath environ) rsS \<longrightarrow>
      Getenv environ ''APP_NAME'' \<noteq> [] \<longrightarrow>
      failedScope svc (appPath environ) rsF err \<longrightarrow>
        main environ args (Inr svc) child ro so =
          Some (requestsOf (sharedPath environ) None rsS @
                requestsOf (appPath environ) None rsF @
                  [Logln (''Error fetching app params:  '' @ message err)], Exit 1))"
proof -
  from assms have stop: "args = [] \<or> contains args ''-h'' \<or> contains args ''--help''" by blast
  have cnt: "list_all isFetch
        (requestsOf (sharedPath environ) None rsS @ requestsOf (appPath environ) None rsA) \<and>
      length (requests
        (requestsOf (sharedPath environ) None rsS @ requestsOf (appPath environ) None rsA)) =
        length rsS + length rsA \<and>
      ((rsS = [] \<and> rsA = []) =
         (appEnvOf environ = [] \<and> Getenv environ ''APP_NAME'' = []))"
    if "fetchedScope svc (appEnvOf environ \<noteq> []) (sharedPath environ) rsS"
      and "fetchedScope svc (Getenv environ ''APP_NAME'' \<noteq> []) (appPath environ) rsA"
    using fetchedScope_requests [OF that(1)] fetchedScope_requests [OF that(2)]
      fetchedScope_empty [OF that(1)] fetchedScope_empty [OF that(2)]
    by (simp add: requests_append requestsOf_isFetch)
  note M = main_stops [OF stop, of environ]
  show ?thesis
    using cnt by (intro conjI impI) (simp_all add: M)
qed

theorem C4_help_stops_after_fetch_witness:
  "main [''APP_ENV=prod'', ''APP_NAME=web''] [''ls'', ''--help''] (Inl (Error ''no credentials'')) quietChild [] [] = Some ([], Panic) \<and>
   main [''BROKEN''] [''ls'', ''--help''] (Inr emptyStore) quietChild [] [] = Some ([], Panic) \<and>
   main [''APP_ENV=prod'', ''APP_NAME=web''] [''ls'', ''--help''] (Inr emptyStore) quietChild [] [] =
     Some ([Sleep 100, Request (byPath ''/prod/'' None),
            Sleep 100, Request (byPath ''/prod/web/'' None)] @ map Println usage, Exit 0) \<and>
   main [''HOME=/root''] [''ls'', ''--help''] (Inr emptyStore) quietChild [] [] = Some (map Println usage, Exit 0) \<and>
   main [''APP_ENV=prod''] [''ls'', ''--help''] (Inr flakyStore) quietChild [] [] =
     Some ([Sleep 100, Request (byPath ''/prod/'' None),
            Sleep 100, Request (byPath ''/prod/'' (Some ''next'')),
            Logln ''Error fetching shared params:  throttled''], Exit 1) \<and>
   main [''APP_ENV=prod'', ''APP_NAME=web''] [''ls'', ''--help''] (Inr (failingAt ''/prod/web/'')) quietChild [] [] =
     Some ([Sleep 100, Request (byPath ''/prod/'' None),
            Sleep 100, Request (byPath ''/prod/web/'' None),
            Logln ''Error fetching app params:  denied''], Exit 1)"
proof -
  have w0: "main [''APP_ENV=prod'', ''APP_NAME=web''] [''ls'', ''--help''] (Inl (Error ''no credentials'')) quietChild [] [] = Some ([], Panic)"
    using C4_help_stops_after_fetch [where environ = "[''APP_ENV=prod'', ''APP_NAME=web'']" and svc = "emptyStore" and rsS = "[]" and rsA = "[]" and rsF = "[]" and err = "Error []" and e = "Error ''no credentials''" and child = quietChild and ro = "[]" and so = "[]" and args = "[''ls'', ''--help'']"]
    by (simp add: getOSEnv_def SplitN2_def appEnvOf_def sharedPath_def appPath_def fetchedScope_def failedScope_def emptyStore_def flakyStore_def failingAt_def byPath_def)
  have w1: "main [''BROKEN''] [''ls'', ''--help''] (Inr emptyStore) quietChild [] [] = Some ([], Panic)"
    using C4_help_stops_after_fetch [where environ = "[''BROKEN'']" and svc = "emptyStore" and rsS = "[]" and rsA = "[]" and rsF = "[]" and err = "Error []" and e = "Error ''no credentials''" and child = quietChild and ro = "[]" and so = "[]" and args = "[''ls'', ''--help'']"]
    by (simp add: getOSEnv_def SplitN2_def appEnvOf_def sharedPath_def appPath_def fetchedScope_def failedScope_def emptyStore_def flakyStore_def failingAt_def byPath_def)
  have w2: "main [''APP_ENV=prod'', ''APP_NAME=web''] [''ls'', ''--help''] (Inr emptyStore) quietChild [] [] =
       Some ([Sleep 100, Request (byPath ''/prod/'' None),
              Sleep 100, Request (byPath ''/prod/web/'' None)] @ map Println usage, Exit 0)"
    using C4_help_stops_after_fetch [where environ = "[''APP_ENV=prod'', ''APP_NAME=web'']" and svc = "emptyStore" and rsS = "[Inr ([], None)]" and rsA = "[Inr ([], None)]" and rsF = "[]" and err = "Error []" and e = "Error ''no credentials''" and child = quietChild and ro = "[]" and so = "[]" and args = "[''ls'', ''--help'']"]
    by (simp add: getOSEnv_def SplitN2_def appEnvOf_def sharedPath_def appPath_def fetchedScope_def failedScope_def emptyStore_def flakyStore_def failingAt_def byPath_def)
  have w3: "main [''HOME=/root''] [''ls'', ''--help''] (Inr emptyStore) quietChild [] [] = Some (map Println usage, Exit 0)"
    using C4_help_stops_after_fetch [where environ = "[''HOME=/root'']" and svc = "emptyStore" and rsS = "[]" and rsA = "[]" and rsF = "[]" and err = "Error []" and e = "Error ''no credentials''" and child = quietChild and ro = "[]" and so = "[]" and args = "[''ls'', ''--help'']"]
    by (simp add: getOSEnv_def SplitN2_def appEnvOf_def sharedPath_def appPath_def fetchedScope_def failedScope_def emptyStore_def flakyStore_def failingAt_def byPath_def)
  have w4: "main [''APP_ENV=prod''] [''ls'', ''--help''] (Inr flakyStore) quietChild [] [] =
       Some ([Sleep 100, Request (byPath ''/prod/'' None),
              Sleep 100, Request (byPath ''/prod/'' (Some ''next'')),
              Logln ''Error fetching shared params:  throttled''], Exit 1)"
    using C4_help_stops_after_fetch [where environ = "[''APP_ENV=prod'']" and svc = "flakyStore" and rsS = "[]" and rsA = "[]" and rsF = "[Inr ([\<lparr>Name = ''/prod/A'', Value = ''1''\<rparr>], Some ''next''), Inl (Error ''throttled'')]" and err = "Error ''throttled''" and e = "Error ''no credentials''" and child = quietChild and ro = "[]" and so = "[]" and args = "[''ls'', ''--help'']"]
    by (simp add: getOSEnv_def SplitN2_def appEnvOf_def sharedPath_def appPath_def fetchedScope_def failedScope_def emptyStore_def flakyStore_def failingAt_def byPath_def)
  have w5: "main [''APP_ENV=prod'', ''APP_NAME=web''] [''ls'', ''--help''] (Inr (failingAt ''/prod/web/'')) quietChild [] [] =
       Some ([Sleep 100, Request (byPath ''/prod/'' None),
              Sleep 100, Request (byPath ''/prod/web/'' None),
              Logln ''Error fetching app params:  denied''], Exit 1)"
    using C4_help_stops_after_fetch [where environ = "[''APP_ENV=prod'', ''APP_NAME=web'']" and svc = "failingAt ''/prod/web/''" and rsS = "[Inr ([\<lparr>Name = ''/prod/A'', Value = ''1''\<rparr>], None)]" and rsA = "[]" and rsF = "[Inl (Error ''denied'')]" and err = "Error ''denied''" and e = "Error ''no credentials''" and child = quietChild and ro = "[]" and so = "[]" and args = "[''ls'', ''--help'']"]
    by (simp add: getOSEnv_def SplitN2_def appEnvOf_def sharedPath_def appPath_def fetchedScope_def failedScope_def emptyStore_def flakyStore_def failingAt_def byPath_def)
  show ?thesis
    by (intro conjI) (rule w0 w1 w2 w3 w4 w5)+
qed

end
